theory Spec2Isabelle
  imports Main "HOL-Library.Word" "HOL-Library.Signed_Division"
begin

unbundle bit_operations_syntax

section \<open>The frame unpacker of \<open>LocalDevice::getFrame\<close>\<close>

text \<open>
  The caller's output array \<open>uint16_t *buffer\<close> is modelled as a write log: every
  assignment \<open>buffer[p] = v\<close> of the source appends the pair \<open>(p, v)\<close>, oldest write
  first. The array a log denotes over some initial contents is read with \<open>store_read\<close>;
  a later write to a position hides an earlier one. C performs no bounds check on
  \<open>buffer\<close> or on \<open>pdata\<close>, so both are addressed by any integer here; capacity is the
  caller's obligation.
\<close>

type_synonym store = "(int \<times> 16 word) list"

fun store_read :: "(int \<Rightarrow> 16 word) \<Rightarrow> store \<Rightarrow> int \<Rightarrow> 16 word" where
  "store_read init [] p = init p"
| "store_read init ((q, v) # ws) p = store_read (init(q := v)) ws p"

text \<open>
  The two pixel expressions of the source (lines 480-481 and 484-485, repeated at 493-495
  and 498-500). Each byte is cast to \<open>unsigned short\<close>, promoted to a 32-bit \<open>int\<close>
  for the shift and the bitwise operators, and the result is stored into a
  \<open>uint16_t\<close>. All values are non-negative, so the promoted arithmetic is that of
  \<open>32 word\<close>.
\<close>

definition pixel_even :: "8 word \<Rightarrow> 8 word \<Rightarrow> 16 word" where
  "pixel_even b0 b2 =
     ucast (push_bit 4 (ucast (ucast b0 :: 16 word) :: 32 word) OR
            ((ucast (ucast b2 :: 16 word) :: 32 word) AND 0x000F))"

definition pixel_odd :: "8 word \<Rightarrow> 8 word \<Rightarrow> 16 word" where
  "pixel_odd b1 b2 =
     ucast (push_bit 4 (ucast (ucast b1 :: 16 word) :: 32 word) OR
            drop_bit 4 ((ucast (ucast b2 :: 16 word) :: 32 word) AND 0x00F0))"

text \<open>
  The loop of the \<open>width == 668\<close> branch (lines 475-487). \<open>i\<close> and \<open>j\<close> are C
  \<open>int\<close>s; \<open>n\<close> is the loop bound \<open>(int)(height * width * 3 / 2)\<close>. Both stay
  non-negative and below \<open>2^31\<close> while the loop runs, except that \<open>i += 3\<close> leaves the
  \<open>int\<close> range (undefined behaviour in C) in the single case \<open>n = 2^31 - 1\<close>; the model
  uses unbounded integers there. C's \<open>%\<close> truncates, which is \<open>smod\<close>.
\<close>

function unpackA_loop ::
  "int \<Rightarrow> (int \<Rightarrow> 8 word) \<Rightarrow> int \<Rightarrow> int \<Rightarrow> store \<Rightarrow> int \<times> store" where
  "unpackA_loop n pdata i j buffer =
     (if i < n then
        (let j1 = (if i \<noteq> 0 \<and> i smod (336 * 3) = 0 then j - 4 else j);
             buffer1 = buffer @ [(j1, pixel_even (pdata i) (pdata (i + 2)))];
             j2 = j1 + 1;
             buffer2 = buffer1 @ [(j2, pixel_odd (pdata (i + 1)) (pdata (i + 2)))];
             j3 = j2 + 1
         in unpackA_loop n pdata (i + 3) j3 buffer2)
      else (j, buffer))"
  by pat_completeness auto
termination
  by (relation "measure (\<lambda>(n, pdata, i, j, buffer). nat (n - i))") auto

declare unpackA_loop.simps [simp del]

text \<open>
  The loop of the other branch (lines 489-504). \<open>offset\<close> is the two-element array
  of \<open>unsigned int\<close>; \<open>j / width\<close> converts \<open>j\<close> to \<open>unsigned int\<close> and divides
  there. The index expression \<open>buffer[offset[offset_idx]]\<close> is unsigned, hence
  \<open>uint\<close>. The result is the final \<open>j\<close>, the final offsets and the write log.
\<close>

function unpackB_loop ::
  "32 word \<Rightarrow> int \<Rightarrow> (int \<Rightarrow> 8 word) \<Rightarrow> int \<Rightarrow> int \<Rightarrow> 32 word list \<Rightarrow> store
     \<Rightarrow> int \<times> 32 word list \<times> store" where
  "unpackB_loop width n pdata i j offset buffer =
     (if i < n then
        (let offset_idx = unat (((word_of_int j :: 32 word) div width) mod 2);
             buffer1 = buffer @ [(uint (offset ! offset_idx),
                                  pixel_even (pdata i) (pdata (i + 2)))];
             offset1 = offset[offset_idx := offset ! offset_idx + 1];
             buffer2 = buffer1 @ [(uint (offset1 ! offset_idx),
                                   pixel_odd (pdata (i + 1)) (pdata (i + 2)))];
             offset2 = offset1[offset_idx := offset1 ! offset_idx + 1];
             j1 = j + 2
         in unpackB_loop width n pdata (i + 3) j1 offset2 buffer2)
      else (j, offset, buffer))"
  by pat_completeness auto
termination
  by (relation "measure (\<lambda>(width, n, pdata, i, j, offset, buffer). nat (n - i))") auto

declare unpackB_loop.simps [simp del]

text \<open>
  The loop bound \<open>(int)(height * width * 3 / 2)\<close>: the product is computed in
  \<open>unsigned int\<close> (it wraps modulo \<open>2^32\<close>) and then converted to \<open>int\<close>.
\<close>

definition plane_bytes :: "32 word \<Rightarrow> 32 word \<Rightarrow> int" where
  "plane_bytes height width = sint (height * width * 3 div 2)"

text \<open>Lines 467-505: the unpacking step of \<open>getFrame\<close> over the active geometry.\<close>

definition unpack :: "32 word \<Rightarrow> 32 word \<Rightarrow> (int \<Rightarrow> 8 word) \<Rightarrow> store \<Rightarrow> store" where
  "unpack width height pdata buffer =
     (let offset = [0, height * width div 2] in
      if width = 668 then snd (unpackA_loop (plane_bytes height width) pdata 0 0 buffer)
      else snd (snd (unpackB_loop width (plane_bytes height width) pdata 0 0 offset buffer)))"

section \<open>The capture session of \<open>LocalDevice\<close>\<close>

text \<open>
  \<open>aditof::Status\<close>, \<open>aditof::FrameDetails\<close> and its calibration data are declared in
  headers that are not part of the sources; they are modelled with the values and fields the
  source uses. The fields of \<open>FrameDetails\<close> carry the prefix \<open>frame_\<close> because
  \<open>getFrame\<close> has locals named \<open>width\<close> and \<open>height\<close>; the calibration fields hold
  the literals \<open>0\<close> and \<open>1\<close> the source assigns.
\<close>

datatype Status = OK | BUSY | GENERIC_ERROR

record FrameCalData =
  cal_offset :: int
  cal_gain :: int

record FrameDetails =
  frame_width :: "32 word"
  frame_height :: "32 word"
  frame_type :: string
  cal_data :: FrameCalData

text \<open>
  \<open>struct buffer\<close> (lines 29-32) and \<open>LocalDevice::ImplData\<close> (lines 34-42). The
  fields of \<open>buffer\<close> carry the prefix \<open>buf_\<close>: \<open>start\<close> is also a method of the
  class and \<open>length\<close> the length of a list.
  \<open>videoBuffers\<close> is the contents of the array the pointer refers to, indexed by any
  natural number; the scratch array \<open>planes\<close> only carries values between an ioctl and
  the statements after it and is represented by the reply of that ioctl.
\<close>

record buffer =
  buf_start :: int
  buf_length :: "64 word"

record ImplData =
  fd :: int
  sfd :: int
  videoBuffers :: "nat \<Rightarrow> buffer"
  nVideoBuffers :: "32 word"
  frameDetails :: FrameDetails
  started :: bool

text \<open>
  The operating system and the driver are the environment. Every call the code makes is
  recorded, oldest first, with the arguments the properties below speak about; the
  environment answers the \<open>n\<close>-th call of a run with the reply \<open>env n\<close>, which may be
  anything. A reply carries the return value, \<open>errno\<close>, the fields a driver writes back
  (\<open>buf.index\<close>, \<open>req.count\<close>, \<open>planes[0].length\<close>, \<open>planes[0].m.mem_offset\<close>), the
  pointer \<open>mmap\<close> or \<open>calloc\<close> returns, and the contents of the mapped capture memory
  after the call.
\<close>

datatype request =
    VIDIOC_QBUF "32 word"
  | VIDIOC_DQBUF
  | VIDIOC_STREAMON
  | VIDIOC_STREAMOFF
  | VIDIOC_S_FMT "32 word" "32 word"
  | VIDIOC_REQBUFS "32 word"
  | VIDIOC_QUERYBUF "32 word"
  | VIDIOC_S_EXT_CTRLS "16 word list"

datatype syscall =
    Ioctl int request
  | Select int int int
  | Munmap int "64 word"
  | Mmap "32 word" int "32 word"
  | Calloc "32 word"
  | Free
  | Close int

record reply =
  ret :: int
  errno :: int
  out_index :: "32 word"
  out_count :: "32 word"
  out_length :: "32 word"
  out_mem_offset :: "32 word"
  out_ptr :: int
  out_mem :: "int \<Rightarrow> 8 word"

type_synonym env = "nat \<Rightarrow> reply"

record os =
  calls :: "syscall list"
  logged :: "string list"
  mem :: "int \<Rightarrow> 8 word"

text \<open>
  Constants of the system headers, with their Linux values, and \<open>CTRL_PACKET_SIZE\<close>
  (line 21).
\<close>

definition EINTR :: int where "EINTR = 4"
definition EIO :: int where "EIO = 5"
definition EAGAIN :: int where "EAGAIN = 11"
definition MAP_FAILED :: int where "MAP_FAILED = - 1"
definition CTRL_PACKET_SIZE :: "64 word" where "CTRL_PACKET_SIZE = 4096"

text \<open>One call: it is appended to the record and answered by the environment.\<close>

definition sys :: "env \<Rightarrow> syscall \<Rightarrow> os \<Rightarrow> reply \<times> os" where
  "sys env c w =
     (let r = env (length (calls w))
      in (r, w\<lparr>calls := calls w @ [c], mem := out_mem r\<rparr>))"

text \<open>\<open>LOG(WARNING)\<close> and \<open>LOG(INFO)\<close>: the fixed text of the message is recorded.\<close>

definition LOG :: "string \<Rightarrow> os \<Rightarrow> os" where
  "LOG msg w = w\<lparr>logged := logged w @ [msg]\<rparr>"

text \<open>
  \<open>xioctl\<close> (lines 46-54) repeats the ioctl while it fails with \<open>EINTR\<close>. Nothing
  bounds the number of repetitions, so the result is \<open>None\<close> when the loop never ends.
\<close>

partial_function (option) xioctl :: "env \<Rightarrow> int \<Rightarrow> request \<Rightarrow> os \<Rightarrow> (reply \<times> os) option" where
  "xioctl env fh request w =
     (case sys env (Ioctl fh request) w of
        (r, w') \<Rightarrow>
          if - 1 = ret r \<and> EINTR = errno r \<and> errno r \<noteq> 0 then xioctl env fh request w'
          else Some (r, w'))"

text \<open>
  \<open>LocalDevice::start\<close> (lines 165-202). The loop of lines 176-189 yields \<open>False\<close>
  when it returned \<open>GENERIC_ERROR\<close> from inside, \<open>True\<close> when it ran to its end.
\<close>

function start_loop :: "env \<Rightarrow> ImplData \<Rightarrow> 32 word \<Rightarrow> os \<Rightarrow> (bool \<times> os) option" where
  "start_loop env impl i w =
     (if i < nVideoBuffers impl then
        (case xioctl env (fd impl) (VIDIOC_QBUF i) w of
           None \<Rightarrow> None
         | Some (r, w') \<Rightarrow>
             if ret r = - 1 then Some (False, LOG ''mmap error'' w')
             else start_loop env impl (i + 1) w')
      else Some (True, w))"
  by pat_completeness auto
termination
proof (relation "measure (\<lambda>(env, impl, i, w). unat (nVideoBuffers impl) - unat i)")
  show "wf (measure (\<lambda>(env, impl, i, w). unat (nVideoBuffers impl) - unat i))"
    by simp
next
  fix env :: env and impl :: ImplData and i :: "32 word" and w :: os
    and x2 :: "reply \<times> os" and x :: reply and y :: os
  assume lt: "i < nVideoBuffers impl"
  then have a: "unat i < unat (nVideoBuffers impl)" by (simp add: word_less_nat_alt)
  have "unat (nVideoBuffers impl) < 2 ^ LENGTH(32)" by (rule unsigned_less)
  then have "unat i + unat (1 :: 32 word) < 2 ^ LENGTH(32)" using a by simp
  then have "unat (i + 1) = unat i + unat (1 :: 32 word)" by (simp only: unat_add_lem)
  then show "((env, impl, i + 1, y), env, impl, i, w)
        \<in> measure (\<lambda>(env, impl, i, w). unat (nVideoBuffers impl) - unat i)"
    using a by simp
qed

declare start_loop.simps [simp del]

definition start :: "env \<Rightarrow> ImplData \<Rightarrow> os \<Rightarrow> (Status \<times> ImplData \<times> os) option" where
  "start env impl w =
     (if started impl then Some (BUSY, impl, LOG ''Device already started'' w)
      else
        (case start_loop env impl 0 (LOG ''Starting device'' w) of
           None \<Rightarrow> None
         | Some (False, w1) \<Rightarrow> Some (GENERIC_ERROR, impl, w1)
         | Some (True, w1) \<Rightarrow>
             (case xioctl env (fd impl) VIDIOC_STREAMON w1 of
                None \<Rightarrow> None
              | Some (r, w2) \<Rightarrow>
                  if ret r = - 1
                  then Some (GENERIC_ERROR, impl, LOG ''VIDIOC_STREAMON error'' w2)
                  else Some (OK, impl\<lparr>started := True\<rparr>, w2))))"

text \<open>\<open>LocalDevice::stop\<close> (lines 204-225).\<close>

definition stop :: "env \<Rightarrow> ImplData \<Rightarrow> os \<Rightarrow> (Status \<times> ImplData \<times> os) option" where
  "stop env impl w =
     (if \<not> started impl then Some (BUSY, impl, LOG ''Device already stopped'' w)
      else
        (case xioctl env (fd impl) VIDIOC_STREAMOFF (LOG ''Stopping device'' w) of
           None \<Rightarrow> None
         | Some (r, w1) \<Rightarrow>
             if ret r = - 1
             then Some (GENERIC_ERROR, impl, LOG ''VIDIOC_STREAMOFF error'' w1)
             else Some (OK, impl\<lparr>started := False\<rparr>, w1)))"




text \<open>
  \<open>LocalDevice::setFrameType\<close> (lines 251-339). Its unmap loop (lines 260-268) returns
  from the function at the first failure. \<open>details != m_implData->frameDetails\<close> uses an
  operator declared in \<open>aditof/frame_operations.h\<close>, which is not part of the sources; it
  is the parameter \<open>differs\<close>. The mapping loop (lines 306-334) counts in
  \<open>m_implData->nVideoBuffers\<close> itself.
\<close>

function setFrameType_unmap_loop :: "env \<Rightarrow> ImplData \<Rightarrow> 32 word \<Rightarrow> os \<Rightarrow> bool \<times> os" where
  "setFrameType_unmap_loop env impl i w =
     (if i < nVideoBuffers impl then
        (case sys env (Munmap (buf_start (videoBuffers impl (unat i)))
                              (buf_length (videoBuffers impl (unat i)))) w of
           (r, w') \<Rightarrow>
             if ret r = - 1 then (False, LOG ''munmap error'' w')
             else setFrameType_unmap_loop env impl (i + 1) w')
      else (True, w))"
  by pat_completeness auto
termination
proof (relation "measure (\<lambda>(env, impl, i, w). unat (nVideoBuffers impl) - unat i)")
  show "wf (measure (\<lambda>(env, impl, i, w). unat (nVideoBuffers impl) - unat i))"
    by simp
next
  fix env :: env and impl :: ImplData and i :: "32 word" and w :: os
    and x :: reply and y :: os
  assume lt: "i < nVideoBuffers impl"
  then have a: "unat i < unat (nVideoBuffers impl)" by (simp add: word_less_nat_alt)
  have "unat (nVideoBuffers impl) < 2 ^ LENGTH(32)" by (rule unsigned_less)
  then have "unat i + unat (1 :: 32 word) < 2 ^ LENGTH(32)" using a by simp
  then have "unat (i + 1) = unat i + unat (1 :: 32 word)" by (simp only: unat_add_lem)
  then show "((env, impl, i + 1, y), env, impl, i, w)
        \<in> measure (\<lambda>(env, impl, i, w). unat (nVideoBuffers impl) - unat i)"
    using a by simp
qed

declare setFrameType_unmap_loop.simps [simp del]

function setFrameType_map_loop ::
  "env \<Rightarrow> 32 word \<Rightarrow> ImplData \<Rightarrow> os \<Rightarrow> (bool \<times> ImplData \<times> os) option" where
  "setFrameType_map_loop env count impl w =
     (if nVideoBuffers impl < count then
        (case xioctl env (fd impl) (VIDIOC_QUERYBUF (nVideoBuffers impl)) w of
           None \<Rightarrow> None
         | Some (r, w1) \<Rightarrow>
             if ret r = - 1 then Some (False, impl, LOG ''VIDIOC_QUERYBUF error'' w1)
             else
               (case sys env (Mmap (out_length r) (fd impl) (out_mem_offset r)) w1 of
                  (m, w2) \<Rightarrow>
                    (let n = unat (nVideoBuffers impl);
                         impl1 = impl\<lparr>videoBuffers := (videoBuffers impl)
                                   (n := (videoBuffers impl n)\<lparr>buf_start := out_ptr m\<rparr>)\<rparr>
                     in if out_ptr m = MAP_FAILED
                        then Some (False, impl1, LOG ''mmap error'' w2)
                        else
                          setFrameType_map_loop env count
                            (impl1\<lparr>videoBuffers := (videoBuffers impl1)
                                      (n := (videoBuffers impl1 n)
                                              \<lparr>buf_length := ucast (out_length r)\<rparr>),
                                    nVideoBuffers := nVideoBuffers impl + 1\<rparr>) w2)))
      else Some (True, impl, w))"
  by pat_completeness auto
termination
proof (relation "measure (\<lambda>(env, count, impl, w). unat count - unat (nVideoBuffers impl))")
  show "wf (measure (\<lambda>(env, count, impl, w). unat count - unat (nVideoBuffers impl)))"
    by simp
next
  fix env :: env and count :: "32 word" and impl :: ImplData and w :: os
    and x2 :: "reply \<times> os" and x :: reply and y :: os and xa :: "reply \<times> os"
    and xb :: reply and ya :: os and xc :: nat and xd :: ImplData
  assume lt: "nVideoBuffers impl < count" and xd: "xd = impl
         \<lparr>videoBuffers := (videoBuffers impl)
            (xc := (videoBuffers impl xc)\<lparr>buf_start := out_ptr xb\<rparr>)\<rparr>"
  then have a: "unat (nVideoBuffers impl) < unat count" by (simp add: word_less_nat_alt)
  have "unat count < 2 ^ LENGTH(32)" by (rule unsigned_less)
  then have "unat (nVideoBuffers impl) + unat (1 :: 32 word) < 2 ^ LENGTH(32)" using a by simp
  then have "unat (nVideoBuffers impl + 1) = unat (nVideoBuffers impl) + unat (1 :: 32 word)"
    by (simp only: unat_add_lem)
  then show "((env, count,
         xd\<lparr>videoBuffers := (videoBuffers xd)
               (xc := (videoBuffers xd xc)\<lparr>buf_length := ucast (out_length x)\<rparr>),
             nVideoBuffers := nVideoBuffers impl + 1\<rparr>, ya), env, count, impl, w)
        \<in> measure (\<lambda>(env, count, impl, w). unat count - unat (nVideoBuffers impl))"
    using a by simp
qed

declare setFrameType_map_loop.simps [simp del]

definition setFrameType_configure ::
  "env \<Rightarrow> FrameDetails \<Rightarrow> ImplData \<Rightarrow> os \<Rightarrow> (Status \<times> ImplData \<times> os) option" where
  "setFrameType_configure env details impl w =
     (case xioctl env (fd impl)
             (VIDIOC_S_FMT (frame_width details) (frame_height details)) w of
        None \<Rightarrow> None
      | Some (f, w1) \<Rightarrow>
          if ret f = - 1
          then Some (GENERIC_ERROR, impl, LOG ''Setting Pixel Format error'' w1)
          else
            (case xioctl env (fd impl) (VIDIOC_REQBUFS 4) w1 of
               None \<Rightarrow> None
             | Some (q, w2) \<Rightarrow>
                 if ret q = - 1
                 then Some (GENERIC_ERROR, impl, LOG ''VIDIOC_REQBUFS error'' w2)
                 else
                   (case sys env (Calloc (out_count q)) w2 of
                      (c, w3) \<Rightarrow>
                        (let impl1 = impl\<lparr>videoBuffers :=
                                       (\<lambda>n. \<lparr>buf_start = 0, buf_length = 0\<rparr>)\<rparr>
                         in if out_ptr c = 0
                            then Some (GENERIC_ERROR, impl1,
                                       LOG ''Failed to allocate video m_implData->videoBuffers'' w3)
                            else
                              (case setFrameType_map_loop env (out_count q)
                                      (impl1\<lparr>nVideoBuffers := 0\<rparr>) w3 of
                                 None \<Rightarrow> None
                               | Some (False, impl2, w4) \<Rightarrow> Some (GENERIC_ERROR, impl2, w4)
                               | Some (True, impl2, w4) \<Rightarrow>
                                   Some (OK, impl2\<lparr>frameDetails := details\<rparr>, w4))))))"

definition setFrameType ::
  "(FrameDetails \<Rightarrow> FrameDetails \<Rightarrow> bool) \<Rightarrow> env \<Rightarrow> FrameDetails \<Rightarrow> ImplData \<Rightarrow> os
     \<Rightarrow> (Status \<times> ImplData \<times> os) option" where
  "setFrameType differs env details impl w =
     (if differs details (frameDetails impl) then
        (case setFrameType_unmap_loop env impl 0 w of
           (False, w1) \<Rightarrow> Some (GENERIC_ERROR, impl, w1)
         | (True, w1) \<Rightarrow>
             setFrameType_configure env details (impl\<lparr>nVideoBuffers := 0\<rparr>)
               (snd (sys env Free w1)))
      else if nVideoBuffers impl \<noteq> 0 then Some (OK, impl, w)
      else setFrameType_configure env details impl w)"

text \<open>
  \<open>LocalDevice::getFrame\<close> (lines 411-514). The function reads the session state and
  never assigns to it, so it returns the status, the output array and the environment only.
  \<open>pdata\<close> is the mapped memory from the start of the dequeued buffer.
\<close>

definition getFrame ::
  "env \<Rightarrow> ImplData \<Rightarrow> store \<Rightarrow> os \<Rightarrow> (Status \<times> store \<times> os) option" where
  "getFrame env impl buffer w =
     (case sys env (Select (fd impl + 1) 4 0) w of
        (r, w1) \<Rightarrow>
          if ret r = - 1 then Some (GENERIC_ERROR, buffer, LOG ''select error'' w1)
          else if ret r = 0 then Some (GENERIC_ERROR, buffer, LOG ''select timeout'' w1)
          else
            (case xioctl env (fd impl) VIDIOC_DQBUF w1 of
               None \<Rightarrow> None
             | Some (buf, w2) \<Rightarrow>
                 (let w3 = (if ret buf = - 1 then LOG ''VIDIOC_DQBUF error'' w2 else w2)
                  in if ret buf = - 1 \<and> errno buf \<noteq> EAGAIN \<and> errno buf \<noteq> EIO
                     then Some (GENERIC_ERROR, buffer, w3)
                     else if out_index buf \<ge> nVideoBuffers impl
                     then Some (GENERIC_ERROR, buffer, LOG ''Not enough buffers avaialable'' w3)
                     else
                       (let pdata = (\<lambda>i. mem w3
                              (buf_start (videoBuffers impl (unat (out_index buf))) + i));
                            buffer1 = unpack (frame_width (frameDetails impl))
                                        (frame_height (frameDetails impl)) pdata buffer
                        in case xioctl env (fd impl) (VIDIOC_QBUF (out_index buf)) w3 of
                             None \<Rightarrow> None
                           | Some (q, w4) \<Rightarrow>
                               if ret q = - 1
                               then Some (GENERIC_ERROR, buffer1, LOG ''VIDIOC_QBUF error'' w4)
                               else Some (OK, buffer1, w4)))))"

text \<open>\<open>LocalDevice::getAvailableFrameTypes\<close> (lines 227-249); \<open>push_back\<close> appends.\<close>

definition getAvailableFrameTypes :: "FrameDetails list \<Rightarrow> Status \<times> FrameDetails list" where
  "getAvailableFrameTypes types =
     (let details = \<lparr>frame_width = 640, frame_height = 960, frame_type = ''depth_ir'',
                      cal_data = \<lparr>cal_offset = 0, cal_gain = 1\<rparr>\<rparr>;
          types1 = types @ [details];
          details1 = details\<lparr>frame_width := 668, frame_height := 750,
                       cal_data := \<lparr>cal_offset = 0, cal_gain = 1\<rparr>, frame_type := ''raw''\<rparr>;
          types2 = types1 @ [details1]
      in (OK, types2))"

text \<open>
  \<open>LocalDevice::writeAfeRegisters\<close> (lines 591-629). \<open>length\<close> is a \<open>size_t\<close>, 64
  bits wide on the 64-bit target; it is called \<open>len\<close> here. The packet \<open>buf\<close> is
  handed to the driver as \<open>unsigned short\<close>s and is modelled as 2048 of them; the inner
  loop (lines 605-611) writes one address and one value per step.
\<close>

function writeAfeRegisters_fill ::
  "(nat \<Rightarrow> 16 word) \<Rightarrow> (nat \<Rightarrow> 16 word) \<Rightarrow> 64 word \<Rightarrow> 64 word \<Rightarrow> 16 word \<Rightarrow> 16 word list
     \<Rightarrow> 16 word \<times> 16 word list" where
  "writeAfeRegisters_fill address data len i sampleCnt buf =
     (if i < (if len > CTRL_PACKET_SIZE then CTRL_PACKET_SIZE else len) then
        writeAfeRegisters_fill address data len (i + 4) (sampleCnt + 1)
          (buf[unat i div 2 := address (unat sampleCnt),
               unat i div 2 + 1 := data (unat sampleCnt)])
      else (sampleCnt, buf))"
  by pat_completeness auto
termination
proof (relation "measure (\<lambda>(address, data, len, i, sampleCnt, buf). 4096 - unat i)")
  show "wf (measure (\<lambda>(address, data, len, i, sampleCnt, buf). 4096 - unat i))"
    by simp
next
  fix address data :: "nat \<Rightarrow> 16 word" and len i :: "64 word" and sampleCnt :: "16 word"
    and buf :: "16 word list"
  assume "i < (if CTRL_PACKET_SIZE < len then CTRL_PACKET_SIZE else len)"
  then have "i < 4096" by (simp add: CTRL_PACKET_SIZE_def split: if_splits)
  then have a: "unat i < 4096" by (simp add: word_less_nat_alt)
  then have "unat i + unat (4 :: 64 word) < 2 ^ LENGTH(64)" by simp
  then have "unat (i + 4) = unat i + unat (4 :: 64 word)" by (simp only: unat_add_lem)
  then show "((address, data, len, i + 4, sampleCnt + 1,
          buf[unat i div 2 := address (unat sampleCnt),
              unat i div 2 + 1 := data (unat sampleCnt)]),
         address, data, len, i, sampleCnt, buf)
        \<in> measure (\<lambda>(address, data, len, i, sampleCnt, buf). 4096 - unat i)"
    using a by simp
qed

declare writeAfeRegisters_fill.simps [simp del]

partial_function (option) writeAfeRegisters_loop ::
  "env \<Rightarrow> ImplData \<Rightarrow> (nat \<Rightarrow> 16 word) \<Rightarrow> (nat \<Rightarrow> 16 word) \<Rightarrow> 64 word \<Rightarrow> 16 word \<Rightarrow> os
     \<Rightarrow> (Status \<times> os) option" where
  "writeAfeRegisters_loop env impl address data len sampleCnt w =
     (if len \<noteq> 0 then
        (case writeAfeRegisters_fill address data len 0 sampleCnt (replicate 2048 0) of
           (sampleCnt1, buf) \<Rightarrow>
             (case xioctl env (sfd impl) (VIDIOC_S_EXT_CTRLS buf) w of
                None \<Rightarrow> None
              | Some (r, w1) \<Rightarrow>
                  if ret r = - 1 then Some (GENERIC_ERROR, LOG ''Programming AFE error'' w1)
                  else writeAfeRegisters_loop env impl address data
                         (len - CTRL_PACKET_SIZE) sampleCnt1 w1))
      else Some (OK, w))"

definition writeAfeRegisters ::
  "env \<Rightarrow> ImplData \<Rightarrow> (nat \<Rightarrow> 16 word) \<Rightarrow> (nat \<Rightarrow> 16 word) \<Rightarrow> 64 word \<Rightarrow> os
     \<Rightarrow> (Status \<times> os) option" where
  "writeAfeRegisters env impl address data len w =
     writeAfeRegisters_loop env impl address data (len * (2 * 2)) 0 w"

section \<open>What the specification says about the unpacker\<close>

text \<open>
  The pixel formulas in the specification's words, on 16-bit values:
  \<open>pixel_even = (b0 << 4) | (b2 & 0x0F)\<close> and
  \<open>pixel_odd = (b1 << 4) | ((b2 & 0xF0) >> 4)\<close>.
\<close>

definition spec_pixel_even :: "8 word \<Rightarrow> 8 word \<Rightarrow> 16 word" where
  "spec_pixel_even b0 b2 = push_bit 4 (ucast b0) OR (ucast b2 AND 0x0F)"

definition spec_pixel_odd :: "8 word \<Rightarrow> 8 word \<Rightarrow> 16 word" where
  "spec_pixel_odd b1 b2 = push_bit 4 (ucast b1) OR drop_bit 4 (ucast b2 AND 0xF0)"

text \<open>The number of triplets a loop with bound \<open>n\<close> visits: \<open>i = 0, 3, 6, ... < n\<close>.\<close>

definition triplets :: "int \<Rightarrow> nat" where
  "triplets n = nat ((n + 2) div 3)"

text \<open>
  The packed plane of a \<open>height\<close> by \<open>width\<close> frame holds \<open>height * width * 3 / 2\<close>
  bytes, in exact arithmetic, and its triplets are the groups of three bytes that begin inside
  it at the offsets \<open>0, 3, 6, ...\<close>.
\<close>

definition spec_plane_bytes :: "32 word \<Rightarrow> 32 word \<Rightarrow> nat" where
  "spec_plane_bytes height width = unat height * unat width * 3 div 2"

definition spec_plane_triplets :: "32 word \<Rightarrow> 32 word \<Rightarrow> nat" where
  "spec_plane_triplets height width = (spec_plane_bytes height width + 2) div 3"

text \<open>The two values the specification assigns to the \<open>k\<close>-th triplet of a plane.\<close>

definition spec_pixels :: "(int \<Rightarrow> 8 word) \<Rightarrow> nat \<Rightarrow> 16 word list" where
  "spec_pixels pdata k =
     [spec_pixel_even (pdata (3 * int k)) (pdata (3 * int k + 2)),
      spec_pixel_odd (pdata (3 * int k + 1)) (pdata (3 * int k + 2))]"

text \<open>
  Sequential writing with a rewind of four positions at every 336-triplet block boundary
  after the first: the \<open>k\<close>-th triplet is written at \<open>2 * k - 4 * (k div 336)\<close> and
  the position after it.
\<close>

definition cursorA :: "nat \<Rightarrow> int" where
  "cursorA k = 2 * int k - 4 * int (k div 336)"

definition writesA :: "(int \<Rightarrow> 8 word) \<Rightarrow> nat \<Rightarrow> store" where
  "writesA pdata k =
     [(cursorA k, pixel_even (pdata (3 * int k)) (pdata (3 * int k + 2))),
      (cursorA k + 1, pixel_odd (pdata (3 * int k + 1)) (pdata (3 * int k + 2)))]"

text \<open>
  The two running offsets: the parity \<open>(pairCursor / width) % 2\<close> with
  \<open>pairCursor = 2 * k\<close> selects the offset of the \<open>k\<close>-th pair, and each offset has
  advanced by two for every earlier pair of the same parity.
\<close>

definition parityB :: "32 word \<Rightarrow> nat \<Rightarrow> nat" where
  "parityB width k = unat (((word_of_nat (2 * k) :: 32 word) div width) mod 2)"

definition earlierB :: "32 word \<Rightarrow> nat \<Rightarrow> nat \<Rightarrow> nat" where
  "earlierB width d k = length (filter (\<lambda>k'. parityB width k' = d) [0..<k])"

definition offsetB :: "32 word \<Rightarrow> 32 word list \<Rightarrow> nat \<Rightarrow> 32 word" where
  "offsetB width offset k =
     offset ! parityB width k + 2 * word_of_nat (earlierB width (parityB width k) k)"

definition writesB :: "32 word \<Rightarrow> 32 word list \<Rightarrow> (int \<Rightarrow> 8 word) \<Rightarrow> nat \<Rightarrow> store" where
  "writesB width offset pdata k =
     [(uint (offsetB width offset k),
       pixel_even (pdata (3 * int k)) (pdata (3 * int k + 2))),
      (uint (offsetB width offset k + 1),
       pixel_odd (pdata (3 * int k + 1)) (pdata (3 * int k + 2)))]"

text \<open>The offsets array after \<open>k\<close> triplets, by the same rule.\<close>

definition offsetsB :: "32 word \<Rightarrow> 32 word list \<Rightarrow> nat \<Rightarrow> 32 word list" where
  "offsetsB width offset k =
     [offset ! 0 + 2 * word_of_nat (earlierB width 0 k),
      offset ! 1 + 2 * word_of_nat (earlierB width 1 k)]"

text \<open>
  For the 640 by 960 geometry a row holds 320 pairs, so the rule sends the \<open>k\<close>-th pair,
  which lies in row \<open>k div 320\<close>, to the first half of the output when the row is even
  and to the second half (from \<open>640 * 960 / 2 = 307200\<close>) when it is odd, at row
  \<open>k div 640\<close> of that half.
\<close>

definition posB :: "nat \<Rightarrow> nat" where
  "posB k = ((k div 320) mod 2) * 307200 + (k div 640) * 640 + 2 * (k mod 320)"

text \<open>A log of pairs written at \<open>pos k\<close> and \<open>pos k + 1\<close> for \<open>k = 0, ..., T - 1\<close>.\<close>

definition pair_log ::
  "(nat \<Rightarrow> int) \<Rightarrow> (nat \<Rightarrow> 16 word) \<Rightarrow> (nat \<Rightarrow> 16 word) \<Rightarrow> nat \<Rightarrow> store" where
  "pair_log pos a b T = concat (map (\<lambda>k. [(pos k, a k), (pos k + 1, b k)]) [0..<T])"

text \<open>
  Concrete inputs: an all-zero packed plane, a plane whose bytes count upwards, and an
  output array holding old data.
\<close>

definition zero_plane :: "int \<Rightarrow> 8 word" where
  "zero_plane i = 0"

definition ramp_plane :: "int \<Rightarrow> 8 word" where
  "ramp_plane i = word_of_int i"

definition stale_array :: "int \<Rightarrow> 16 word" where
  "stale_array p = 0xFFFF"

section \<open>What the specification says about the session\<close>

text \<open>
  A dequeue is fatal when it failed with an error other than the two tolerated transient
  ones, "try again" and "I/O interrupted". After a failed dequeue the source logs a warning
  before it looks at \<open>errno\<close>.
\<close>

definition dequeue_fatal :: "reply \<Rightarrow> bool" where
  "dequeue_fatal d = (ret d = - 1 \<and> errno d \<noteq> EAGAIN \<and> errno d \<noteq> EIO)"

definition dequeue_logged :: "reply \<Rightarrow> os \<Rightarrow> os" where
  "dequeue_logged d w = (if ret d = - 1 then LOG ''VIDIOC_DQBUF error'' w else w)"



text \<open>
  The state of the environment once the buffers \<open>0, ..., k - 1\<close> have been handed to the
  driver, one \<open>VIDIOC_QBUF\<close> each in index order, every one of them accepted. There is
  none when one of these requests is refused or never returns.
\<close>

fun enqueued :: "env \<Rightarrow> ImplData \<Rightarrow> os \<Rightarrow> nat \<Rightarrow> os option" where
  "enqueued env impl w 0 = Some w"
| "enqueued env impl w (Suc k) =
     (case enqueued env impl w k of
        None \<Rightarrow> None
      | Some w1 \<Rightarrow>
          (case xioctl env (fd impl) (VIDIOC_QBUF (word_of_nat k)) w1 of
             None \<Rightarrow> None
           | Some (r, w2) \<Rightarrow> if ret r = - 1 then None else Some w2))"

subsection \<open>Concrete sessions and environments\<close>

text \<open>
  Replies: a success, a failure with a given \<open>errno\<close>, and a \<open>select\<close> that reports one
  ready descriptor. An idle session with two mapped buffers and a tiny geometry, the same
  session streaming, and environments that fail at one chosen call.
\<close>

definition reply_ok :: reply where
  "reply_ok = \<lparr>ret = 0, errno = 0, out_index = 0, out_count = 4, out_length = 4096,
                out_mem_offset = 0, out_ptr = 65536, out_mem = zero_plane\<rparr>"

definition reply_fail :: "int \<Rightarrow> reply" where
  "reply_fail e = reply_ok\<lparr>ret := - 1, errno := e\<rparr>"

definition reply_ready :: reply where
  "reply_ready = reply_ok\<lparr>ret := 1\<rparr>"

definition os0 :: os where
  "os0 = \<lparr>calls = [], logged = [], mem = zero_plane\<rparr>"

definition details_tiny :: FrameDetails where
  "details_tiny = \<lparr>frame_width = 2, frame_height = 2, frame_type = ''tiny'',
                    cal_data = \<lparr>cal_offset = 0, cal_gain = 1\<rparr>\<rparr>"

definition details_raw :: FrameDetails where
  "details_raw = \<lparr>frame_width = 668, frame_height = 750, frame_type = ''raw'',
                   cal_data = \<lparr>cal_offset = 0, cal_gain = 1\<rparr>\<rparr>"

definition buffers0 :: "nat \<Rightarrow> buffer" where
  "buffers0 n = \<lparr>buf_start = 65536 + 4096 * int n, buf_length = 4096\<rparr>"

definition impl_idle :: ImplData where
  "impl_idle = \<lparr>fd = 3, sfd = 4, videoBuffers = buffers0, nVideoBuffers = 2,
                 frameDetails = details_tiny, started = False\<rparr>"

definition impl_streaming :: ImplData where
  "impl_streaming = impl_idle\<lparr>started := True\<rparr>"

definition env_ok :: env where
  "env_ok n = reply_ok"

definition env_fail_at :: "nat \<Rightarrow> int \<Rightarrow> env" where
  "env_fail_at k e n = (if n = k then reply_fail e else reply_ok)"

definition env_never_ready :: env where
  "env_never_ready n = reply_ok"

definition env_ready_fail_at :: "nat \<Rightarrow> int \<Rightarrow> env" where
  "env_ready_fail_at k e n =
     (if n = 0 then reply_ready else if n = k then reply_fail e else reply_ok)"

definition env_bad_index :: env where
  "env_bad_index n =
     (if n = 0 then reply_ready else if n = 1 then reply_ok\<lparr>out_index := 7\<rparr> else reply_ok)"

definition os_dequeued :: os where
  "os_dequeued = \<lparr>calls = [Select 4 4 0, Ioctl 3 VIDIOC_DQBUF], logged = [], mem = zero_plane\<rparr>"

definition regs0 :: "nat \<Rightarrow> 16 word" where
  "regs0 n = word_of_nat n"

definition differs_fields :: "FrameDetails \<Rightarrow> FrameDetails \<Rightarrow> bool" where
  "differs_fields a b = (a \<noteq> b)"

section \<open>Properties of the unpacker\<close>

lemma pixel_even_spec: "pixel_even b0 b2 = spec_pixel_even b0 b2"
  unfolding pixel_even_def spec_pixel_even_def
  by (rule bit_word_eqI) (auto simp add: bit_simps)

lemma pixel_odd_spec: "pixel_odd b1 b2 = spec_pixel_odd b1 b2"
  unfolding pixel_odd_def spec_pixel_odd_def
  by (rule bit_word_eqI) (auto simp add: bit_simps)

lemma triplets_le: "(triplets n \<le> k) = (\<not> 3 * int k < n)"
  unfolding triplets_def by linarith

lemma rewind_iff:
  "(3 * int k \<noteq> 0 \<and> (3 * int k) smod (336 * 3) = 0) = (k \<noteq> 0 \<and> k mod 336 = 0)"
proof -
  have "(3 * int k) smod (336 * 3) = (3 * int k) mod (3 * 336)"
    by (subst smod_mod_positive) simp_all
  also have "\<dots> = 3 * (int k mod 336)"
    by (rule mod_mult_mult1)
  also have "\<dots> = 3 * int (k mod 336)"
    by (simp add: zmod_int)
  finally show ?thesis by simp
qed

lemma div336_step:
  "0 < k \<Longrightarrow> k div 336 = (k - 1) div 336 + (if k mod 336 = 0 then 1 else (0::nat))"
proof -
  assume "0 < k"
  then obtain m where k: "k = Suc m" by (cases k) auto
  show ?thesis unfolding k by (simp only: div_Suc diff_Suc_1 split: if_split) simp
qed

lemma rewind_cursor:
  "(if k \<noteq> 0 \<and> k mod 336 = 0 then 2 * int k - 4 * int ((k - 1) div 336) - 4
    else 2 * int k - 4 * int ((k - 1) div 336)) = cursorA k"
proof (cases "k = 0")
  case True
  then show ?thesis by (simp add: cursorA_def)
next
  case False
  then have "k div 336 = (k - 1) div 336 + (if k mod 336 = 0 then 1 else (0::nat))"
    by (intro div336_step) simp
  then show ?thesis using False by (simp add: cursorA_def)
qed

lemma unpackA_loop_gen:
  "unpackA_loop n pdata (3 * int k) (2 * int k - 4 * int ((k - 1) div 336)) buffer =
     (2 * int (max k (triplets n)) - 4 * int ((max k (triplets n) - 1) div 336),
      buffer @ concat (map (writesA pdata) [k..<triplets n]))"
proof (induction "triplets n - k" arbitrary: k buffer)
  case 0
  then have le: "triplets n \<le> k" by simp
  then have ni: "\<not> 3 * int k < n" using triplets_le [of n k] by simp
  have mx: "max k (triplets n) = k" using le by simp
  have em: "[k..<triplets n] = []" using le by simp
  show ?case
    by (subst unpackA_loop.simps) (simp add: ni mx em)
next
  case (Suc d)
  then have lt: "k < triplets n" by simp
  then have i: "3 * int k < n" using triplets_le [of n k] by simp
  have mx: "max (Suc k) (triplets n) = triplets n" "max k (triplets n) = triplets n"
    using lt by simp_all
  have d: "d = triplets n - Suc k" using Suc by simp
  have nx: "3 * int k + 3 = 3 * int (Suc k)" by simp
  have cn: "cursorA k + 1 + 1 = 2 * int (Suc k) - 4 * int ((Suc k - 1) div 336)"
    by (simp add: cursorA_def)
  have up: "[k..<triplets n] = k # [Suc k..<triplets n]" using lt by (simp add: upt_conv_Cons)
  have wr: "[(cursorA k, pixel_even (pdata (3 * int k)) (pdata (3 * int k + 2))),
      (cursorA k + 1, pixel_odd (pdata (3 * int k + 1)) (pdata (3 * int k + 2)))] =
      writesA pdata k"
    by (simp add: writesA_def)
  show ?case
    apply (subst unpackA_loop.simps)
    apply (simp only: i if_True Let_def rewind_iff rewind_cursor nx cn append_assoc
        append_Cons append_Nil wr)
    apply (subst Suc.hyps(1) [OF d])
    apply (simp only: mx up list.map concat.simps append_assoc)
    done
qed

lemma unpackA_loop_closed:
  "unpackA_loop n pdata 0 0 buffer =
     (2 * int (triplets n) - 4 * int ((triplets n - 1) div 336),
      buffer @ concat (map (writesA pdata) [0..<triplets n]))"
  using unpackA_loop_gen [of n pdata 0 buffer] by simp

subsection \<open>The two running offsets\<close>

lemma parityB_cases: "parityB width k = 0 \<or> parityB width k = 1"
proof -
  have "((word_of_nat (2 * k) :: 32 word) div width) mod 2 < 2"
    by (rule word_mod_less_divisor) simp
  then have "unat (((word_of_nat (2 * k) :: 32 word) div width) mod 2) < 2"
    by (simp add: word_less_nat_alt)
  then show ?thesis unfolding parityB_def by linarith
qed

lemma earlierB_Suc:
  "earlierB width d (Suc k) = earlierB width d k + (if parityB width k = d then 1 else 0)"
  by (simp add: earlierB_def)

lemma offsetsB_nth: "offsetsB width offset k ! parityB width k = offsetB width offset k"
  using parityB_cases [of width k]
  by (auto simp add: offsetsB_def offsetB_def)

lemma offsetsB_upd_nth:
  "(offsetsB width offset k) [parityB width k := v] ! parityB width k = v"
  using parityB_cases [of width k]
  by (auto simp add: offsetsB_def)

lemma offsetsB_step:
  "(offsetsB width offset k)
      [parityB width k := offsetB width offset k + 1,
       parityB width k := offsetB width offset k + 1 + 1]
   = offsetsB width offset (Suc k)"
  using parityB_cases [of width k]
  by (auto simp add: offsetsB_def offsetB_def earlierB_Suc)

lemma parityB_loop:
  "unat (((word_of_int (2 * int k) :: 32 word) div width) mod 2) = parityB width k"
  by (simp add: parityB_def)

lemma unpackB_loop_gen:
  "unpackB_loop width n pdata (3 * int k) (2 * int k) (offsetsB width offset k) buffer =
     (2 * int (max k (triplets n)), offsetsB width offset (max k (triplets n)),
      buffer @ concat (map (writesB width offset pdata) [k..<triplets n]))"
proof (induction "triplets n - k" arbitrary: k buffer)
  case 0
  then have le: "triplets n \<le> k" by simp
  then have ni: "\<not> 3 * int k < n" using triplets_le [of n k] by simp
  have mx: "max k (triplets n) = k" using le by simp
  have em: "[k..<triplets n] = []" using le by simp
  show ?case
    by (subst unpackB_loop.simps) (simp add: ni mx em)
next
  case (Suc d)
  then have lt: "k < triplets n" by simp
  then have i: "3 * int k < n" using triplets_le [of n k] by simp
  have mx: "max (Suc k) (triplets n) = triplets n" "max k (triplets n) = triplets n"
    using lt by simp_all
  have d: "d = triplets n - Suc k" using Suc by simp
  have nx: "3 * int k + 3 = 3 * int (Suc k)" "2 * int k + 2 = 2 * int (Suc k)" by simp_all
  have up: "[k..<triplets n] = k # [Suc k..<triplets n]" using lt by (simp add: upt_conv_Cons)
  have wr: "[(uint (offsetB width offset k),
       pixel_even (pdata (3 * int k)) (pdata (3 * int k + 2))),
      (uint (offsetB width offset k + 1),
       pixel_odd (pdata (3 * int k + 1)) (pdata (3 * int k + 2)))] =
      writesB width offset pdata k"
    by (simp add: writesB_def)
  show ?case
    apply (subst unpackB_loop.simps)
    apply (simp only: i if_True Let_def parityB_loop offsetsB_nth offsetsB_upd_nth offsetsB_step
         nx append_assoc append_Cons append_Nil wr)
    apply (subst Suc.hyps(1) [OF d])
    apply (simp only: mx up list.map concat.simps append_assoc)
    done
qed

subsection \<open>The 640 by 960 geometry\<close>

lemma parityB_640: "k < 2 ^ 31 \<Longrightarrow> parityB 640 k = (k div 320) mod 2"
proof -
  assume k: "k < 2 ^ 31"
  then have "2 * k < 2 ^ 32" by simp
  then have u: "unat (word_of_nat (2 * k) :: 32 word) = 2 * k"
    by (simp only: unat_of_nat) simp
  have "parityB 640 k = (2 * k) div 640 mod 2"
    unfolding parityB_def by (simp only: unat_mod unat_div u) simp
  also have "(2 * k) div 640 = k div 320"
    by simp
  finally show ?thesis .
qed

lemma row_div: "c < 320 \<Longrightarrow> (r * 320 + c) div 320 = (r::nat)"
  by simp

lemma earlierB_640_row:
  "c \<le> 320 \<Longrightarrow> r * 320 + c \<le> 2 ^ 31 \<Longrightarrow>
   earlierB 640 d (r * 320 + c) = earlierB 640 d (r * 320) + (if r mod 2 = d then c else 0)"
proof (induction c)
  case 0
  then show ?case by simp
next
  case (Suc c)
  then have c: "c < 320" and b: "r * 320 + c < 2 ^ 31" by simp_all
  have p: "parityB 640 (r * 320 + c) = r mod 2"
    using parityB_640 [OF b] row_div [OF c] by simp
  have "earlierB 640 d (r * 320 + Suc c) = earlierB 640 d (Suc (r * 320 + c))" by simp
  also have "\<dots> = earlierB 640 d (r * 320 + c) + (if r mod 2 = d then 1 else 0)"
    by (simp only: earlierB_Suc p)
  finally show ?case using Suc by simp
qed

lemma earlierB_640_rows:
  "r * 320 \<le> 2 ^ 31 \<Longrightarrow>
   earlierB 640 0 (r * 320) = ((r + 1) div 2) * 320 \<and> earlierB 640 1 (r * 320) = (r div 2) * 320"
proof (induction r)
  case 0
  then show ?case by (simp add: earlierB_def)
next
  case (Suc r)
  then have b: "r * 320 + 320 \<le> 2 ^ 31" by simp
  then have b': "r * 320 \<le> 2 ^ 31" by simp
  have s: "Suc r * 320 = r * 320 + 320" by simp
  have e: "earlierB 640 d (Suc r * 320) = earlierB 640 d (r * 320) + (if r mod 2 = d then 320 else 0)" for d
    unfolding s using earlierB_640_row [of 320 r d] b by simp
  show ?case
  proof (cases "even r")
    case True
    then obtain m where "r = 2 * m" by (auto elim: evenE)
    then show ?thesis using Suc.IH [OF b'] e [of 0] e [of 1] by simp
  next
    case False
    then obtain m where "r = 2 * m + 1" by (auto elim: oddE)
    then show ?thesis using Suc.IH [OF b'] e [of 0] e [of 1] by simp
  qed
qed

lemma earlierB_640:
  assumes "k < 2 ^ 31"
  shows "2 * earlierB 640 ((k div 320) mod 2) k = (k div 640) * 640 + 2 * (k mod 320)"
proof -
  define r c where "r = k div 320" and "c = k mod 320"
  have k: "k = r * 320 + c" and c: "c < 320" by (simp_all add: r_def c_def)
  have b: "r * 320 + c \<le> 2 ^ 31" "r * 320 \<le> 2 ^ 31" using assms k by simp_all
  have r2: "k div 640 = r div 2" unfolding r_def by (simp add: div_mult2_eq)
  have "earlierB 640 (r mod 2) k = earlierB 640 (r mod 2) (r * 320) + c"
    unfolding k using earlierB_640_row [of c r "r mod 2"] c b by simp
  moreover have "earlierB 640 (r mod 2) (r * 320) = (r div 2) * 320"
  proof (cases "even r")
    case True
    then have "r mod 2 = 0" "(r + 1) div 2 = r div 2" by auto
    then show ?thesis using earlierB_640_rows [OF b(2)] by simp
  next
    case False
    then have "r mod 2 = 1" by (simp add: odd_iff_mod_2_eq_one)
    then show ?thesis using earlierB_640_rows [OF b(2)] by simp
  qed
  ultimately show ?thesis unfolding r2 by (simp add: r_def c_def)
qed

lemma uint_word_of_nat_32: "n < 2 ^ 32 \<Longrightarrow> uint (word_of_nat n :: 32 word) = int n"
  by (simp only: uint_nat unat_of_nat) simp

lemma offsetB_640:
  assumes "k < 307200"
  shows "uint (offsetB 640 [0, 307200] k) = int (posB k)"
    and "uint (offsetB 640 [0, 307200] k + 1) = int (posB k) + 1"
proof -
  have k: "k < 2 ^ 31" using assms by simp
  have p: "parityB 640 k = (k div 320) mod 2" by (rule parityB_640 [OF k])
  have sel: "[0, 307200 :: 32 word] ! ((k div 320) mod 2) = word_of_nat (((k div 320) mod 2) * 307200)"
    by (cases "even (k div 320)") (simp_all add: odd_iff_mod_2_eq_one)
  have "offsetB 640 [0, 307200] k = word_of_nat (((k div 320) mod 2) * 307200)
           + word_of_nat (2 * earlierB 640 ((k div 320) mod 2) k)"
    unfolding offsetB_def p sel by simp
  also have "\<dots> = word_of_nat (posB k)"
    unfolding earlierB_640 [OF k] posB_def by (simp add: algebra_simps)
  finally have o: "offsetB 640 [0, 307200] k = word_of_nat (posB k)" .
  have "k div 640 < 480" using assms by simp
  then have "(k div 640) * 640 \<le> 479 * 640" by simp
  moreover have "(k div 320) mod 2 * 307200 \<le> 307200" by simp
  moreover have "2 * (k mod 320) < 640" by simp
  ultimately have bound: "posB k < 614400" unfolding posB_def by linarith
  then have b32: "posB k < 2 ^ 32" "posB k + 1 < 2 ^ 32" by simp_all
  show "uint (offsetB 640 [0, 307200] k) = int (posB k)"
    unfolding o by (rule uint_word_of_nat_32 [OF b32(1)])
  have "offsetB 640 [0, 307200] k + 1 = word_of_nat (posB k + 1)" unfolding o by simp
  then show "uint (offsetB 640 [0, 307200] k + 1) = int (posB k) + 1"
    using uint_word_of_nat_32 [OF b32(2)] by (simp add: add.commute)
qed

lemma posB_decomp: "(k::nat) = 640 * (k div 640) + 320 * (k div 320 mod 2) + k mod 320"
proof -
  have "k div 640 = k div 320 div 2" by (simp add: div_mult2_eq)
  moreover have "k div 320 = 2 * (k div 320 div 2) + k div 320 mod 2" by simp
  moreover have "k = 320 * (k div 320) + k mod 320" by simp
  ultimately show ?thesis by linarith
qed

lemma posB_inj:
  assumes "k < 307200" "k' < 307200" "posB k = posB k'"
  shows "k = k'"
proof -
  define a b c where "a = k div 640" and "b = k div 320 mod 2" and "c = k mod 320"
  define a' b' c' where "a' = k' div 640" and "b' = k' div 320 mod 2" and "c' = k' mod 320"
  have k: "k = 640 * a + 320 * b + c" unfolding a_def b_def c_def by (rule posB_decomp)
  have k': "k' = 640 * a' + 320 * b' + c'" unfolding a'_def b'_def c'_def by (rule posB_decomp)
  have bd: "b < 2" "c < 320" "b' < 2" "c' < 320" "a < 480" "a' < 480"
    using assms(1,2) by (simp_all add: a_def b_def c_def a'_def b'_def c'_def)
  have e: "b * 307200 + a * 640 + 2 * c = b' * 307200 + a' * 640 + 2 * c'"
    using assms(3) unfolding posB_def a_def b_def c_def a'_def b'_def c'_def .
  have "b = b'" using e bd by linarith
  moreover have "a = a'" using e bd calculation by linarith
  moreover have "c = c'" using e bd calculation by linarith
  ultimately show ?thesis using k k' by simp
qed

lemma posB_even: "even (posB k)"
  by (simp add: posB_def)

lemma posB_bound: "k < 307200 \<Longrightarrow> posB k + 1 < 614400"
proof -
  assume "k < 307200"
  then have "k div 640 < 480" by simp
  then have "(k div 640) * 640 \<le> 479 * 640" by simp
  moreover have "(k div 320) mod 2 * 307200 \<le> 307200" by simp
  moreover have "k mod 320 < 320" by simp
  ultimately show ?thesis unfolding posB_def by linarith
qed

lemma posB_of_parts:
  assumes "b < 2" "c < 320"
  shows "posB (640 * a + 320 * b + c) = b * 307200 + a * 640 + 2 * c"
proof -
  have k: "640 * a + 320 * b + c = c + (2 * a + b) * 320" by simp
  have d: "(640 * a + 320 * b + c) div 320 = 2 * a + b"
    unfolding k by (simp only: div_mult_self1 [of 320 c "2 * a + b"]) (use assms(2) in simp)
  have m: "(640 * a + 320 * b + c) mod 320 = c"
    unfolding k by (simp only: mod_mult_self1) (use assms(2) in simp)
  have "(640 * a + 320 * b + c) div 640 = (640 * a + 320 * b + c) div 320 div 2"
    by (simp only: div_mult2_eq [symmetric]) simp
  then have d2: "(640 * a + 320 * b + c) div 640 = a"
    unfolding d using assms(1) by simp
  have "(2 * a + b) mod 2 = b" using assms(1) by simp
  then show ?thesis unfolding posB_def d d2 m by simp
qed

lemma posB_cover:
  assumes "p < 614400"
  shows "\<exists>k<307200. p = posB k \<or> p = posB k + 1"
proof -
  define b q a x c where "b = p div 307200" and "q = p mod 307200" and "a = q div 640"
    and "x = q mod 640" and "c = x div 2"
  have bd: "b < 2" "c < 320" "a < 480"
    using assms by (simp_all add: b_def c_def a_def x_def q_def)
  have p: "p = b * 307200 + a * 640 + 2 * c + x mod 2"
    unfolding b_def a_def c_def x_def q_def by simp
  have "posB (640 * a + 320 * b + c) = b * 307200 + a * 640 + 2 * c"
    by (rule posB_of_parts [OF bd(1,2)])
  moreover have "640 * a + 320 * b + c < 307200" using bd by linarith
  moreover have "x mod 2 = 0 \<or> x mod 2 = 1" by linarith
  ultimately show ?thesis using p by (intro exI [of _ "640 * a + 320 * b + c"]) auto
qed

subsection \<open>Reading a write log\<close>

lemma store_read_Cons_fun:
  "store_read init ((q, v) # ws) = store_read (init(q := v)) ws"
  by (rule ext) simp

lemma store_read_append:
  "store_read init (xs @ ys) p = store_read (store_read init xs) ys p"
proof (induction xs arbitrary: init)
  case Nil
  have "store_read init [] = init" by (rule ext) simp
  then show ?case by simp
next
  case (Cons x xs)
  obtain q v where x: "x = (q, v)" by (cases x)
  show ?case unfolding x
    by (simp only: append_Cons store_read.simps store_read_Cons_fun Cons.IH)
qed

lemma store_read_snoc2:
  "store_read init (ws @ [(q1, v1), (q2, v2)]) p =
     (if p = q2 then v2 else if p = q1 then v1 else store_read init ws p)"
  by (simp add: store_read_append [of init ws])

lemma pair_log_Suc:
  "pair_log pos a b (Suc T) = pair_log pos a b T @ [(pos T, a T), (pos T + 1, b T)]"
  by (simp add: pair_log_def)

lemma pair_log_unwritten:
  "(\<And>k. k < T \<Longrightarrow> p \<noteq> pos k \<and> p \<noteq> pos k + 1) \<Longrightarrow>
   store_read init (pair_log pos a b T) p = init p"
proof (induction T)
  case 0
  show ?case by (simp add: pair_log_def)
next
  case (Suc T)
  have "p \<noteq> pos T \<and> p \<noteq> pos T + 1" using Suc.prems [of T] by simp
  moreover have "store_read init (pair_log pos a b T) p = init p"
    using Suc.IH Suc.prems by simp
  ultimately show ?case by (simp add: pair_log_Suc store_read_snoc2)
qed

lemma pair_log_written:
  assumes inj: "\<And>k k'. k < T \<Longrightarrow> k' < T \<Longrightarrow> k \<noteq> k' \<Longrightarrow> pos k \<noteq> pos k' \<and> pos k \<noteq> pos k' + 1"
    and k: "k < T"
  shows "store_read init (pair_log pos a b T) (pos k) = a k \<and>
         store_read init (pair_log pos a b T) (pos k + 1) = b k"
  using inj k
proof (induction T)
  case 0
  then show ?case by simp
next
  case (Suc T)
  show ?case
  proof (cases "k = T")
    case True
    then show ?thesis by (simp add: pair_log_Suc store_read_snoc2)
  next
    case False
    then have kT: "k < T" using Suc.prems(2) by simp
    have d: "pos k \<noteq> pos T \<and> pos k \<noteq> pos T + 1" "pos T \<noteq> pos k \<and> pos T \<noteq> pos k + 1"
      using Suc.prems(1) [of k T] Suc.prems(1) [of T k] kT by simp_all
    have IH: "store_read init (pair_log pos a b T) (pos k) = a k \<and>
         store_read init (pair_log pos a b T) (pos k + 1) = b k"
      using Suc.IH [OF _ kT] Suc.prems(1) by simp
    show ?thesis using d IH by (simp add: pair_log_Suc store_read_snoc2)
  qed
qed

subsection \<open>The 668 by 750 geometry\<close>

lemma plane_bytes_raw: "plane_bytes 750 668 = 751500" by (simp add: plane_bytes_def)
lemma plane_bytes_depth_ir: "plane_bytes 960 640 = 921600" by (simp add: plane_bytes_def)
lemma triplets_raw: "triplets 751500 = 250500" by (simp add: triplets_def)
lemma triplets_depth_ir: "triplets 921600 = 307200" by (simp add: triplets_def)

lemma cursorA_Suc:
  "cursorA (Suc k) = (if Suc k mod 336 = 0 then cursorA k + 2 - 4 else cursorA k + 2)"
  using div336_step [of "Suc k"] by (simp add: cursorA_def)

lemma cursorA_block: "c < 336 \<Longrightarrow> cursorA (336 * m + c) = 668 * int m + 2 * int c"
proof -
  assume c: "c < 336"
  have "(336 * m + c) div 336 = m" using c by simp
  then show ?thesis by (simp add: cursorA_def)
qed

lemma cursorA_750: "k < 250500 \<Longrightarrow> cursorA k + 1 < 498020"
proof -
  assume k: "k < 250500"
  define m c where "m = k div 336" and "c = k mod 336"
  have kk: "k = 336 * m + c" and c: "c < 336" by (simp_all add: m_def c_def)
  have m: "m \<le> 745" using k by (simp add: m_def)
  have "cursorA k = 668 * int m + 2 * int c" unfolding kk by (rule cursorA_block [OF c])
  moreover have "m = 745 \<longrightarrow> c < 180" using k kk by linarith
  ultimately show ?thesis using m c by linarith
qed

lemma writesA_pair_log:
  "concat (map (writesA pdata) [0..<T]) =
     pair_log cursorA (\<lambda>k. pixel_even (pdata (3 * int k)) (pdata (3 * int k + 2)))
       (\<lambda>k. pixel_odd (pdata (3 * int k + 1)) (pdata (3 * int k + 2))) T"
  by (simp add: pair_log_def writesA_def [abs_def])

lemma length_pair_log: "length (pair_log pos a b T) = 2 * T"
  by (induction T) (simp_all add: pair_log_Suc, simp add: pair_log_def)

subsection \<open>The unpacking step as a whole\<close>

lemma unpackB_loop_closed:
  "unpackB_loop width n pdata 0 0 [o0, o1] buffer =
     (2 * int (triplets n), offsetsB width [o0, o1] (triplets n),
      buffer @ concat (map (writesB width [o0, o1] pdata) [0..<triplets n]))"
proof -
  have "offsetsB width [o0, o1] 0 = [o0, o1]" by (simp add: offsetsB_def earlierB_def)
  then show ?thesis using unpackB_loop_gen [of width n pdata 0 "[o0, o1]" buffer] by simp
qed

lemma unpack_raw:
  "unpack 668 height pdata buffer =
     buffer @ concat (map (writesA pdata) [0..<triplets (plane_bytes height 668)])"
  by (simp add: unpack_def unpackA_loop_closed)

lemma unpack_other:
  "width \<noteq> 668 \<Longrightarrow> unpack width height pdata buffer =
     buffer @ concat (map (writesB width [0, height * width div 2] pdata)
                        [0..<triplets (plane_bytes height width)])"
  by (simp add: unpack_def unpackB_loop_closed)

lemma map_snd_writesA: "map snd (writesA pdata k) = spec_pixels pdata k"
  by (simp add: writesA_def spec_pixels_def pixel_even_spec pixel_odd_spec)

lemma map_snd_writesB: "map snd (writesB width offset pdata k) = spec_pixels pdata k"
  by (simp add: writesB_def spec_pixels_def pixel_even_spec pixel_odd_spec)

lemma map_snd_concat: "map snd (concat (map f ks)) = concat (map (\<lambda>k. map snd (f k)) ks)"
  by (simp add: map_concat comp_def)

lemma plane_bytes_exact:
  assumes "unat height * unat width * 3 < 2 ^ 32"
  shows "plane_bytes height width = int (spec_plane_bytes height width)"
proof -
  have "unat height * unat width \<le> unat height * unat width * 3" by simp
  then have hw: "unat height * unat width < 2 ^ LENGTH(32)" using assms by simp
  then have 1: "unat (height * width) = unat height * unat width"
    by (simp only: unat_mult_lem)
  have "unat (height * width) * unat (3 :: 32 word) < 2 ^ LENGTH(32)"
    unfolding 1 using assms by simp
  then have 2: "unat (height * width * 3) = unat height * unat width * 3"
    unfolding 1 [symmetric] by (simp only: unat_mult_lem) simp
  have 3: "unat (height * width * 3 div 2) = unat height * unat width * 3 div 2"
    by (simp only: unat_div 2) simp
  have p: "(2 :: nat) ^ 32 = 2 ^ 31 * 2" by simp
  have "unat height * unat width * 3 div 2 < 2 ^ 31"
    by (rule less_mult_imp_div_less) (use assms p in simp)
  moreover have l: "LENGTH(32) - 1 = 31" by simp
  ultimately have "unat (height * width * 3 div 2) < 2 ^ (LENGTH(32) - 1)"
    by (simp only: 3)
  then have "int (unat (height * width * 3 div 2)) < int (2 ^ (LENGTH(32) - 1))"
    by (simp only: of_nat_less_iff)
  then have "uint (height * width * 3 div 2) < 2 ^ (LENGTH(32) - 1)"
    by (simp only: uint_nat of_nat_power of_nat_numeral)
  moreover have "- (2 ^ (LENGTH(32) - Suc 0)) \<le> uint (height * width * 3 div 2)"
    by (rule order_trans [of _ 0]) simp_all
  ultimately have "sint (height * width * 3 div 2) = uint (height * width * 3 div 2)"
    unfolding sint_uint by (intro signed_take_bit_int_eq_self) simp_all
  then show ?thesis
    by (simp only: plane_bytes_def spec_plane_bytes_def uint_nat 3)
qed

lemma triplets_int: "triplets (int b) = (b + 2) div 3"
proof -
  have "(int b + 2) div 3 = int ((b + 2) div 3)"
    by (simp only: zdiv_int of_nat_add of_nat_numeral)
  then show ?thesis unfolding triplets_def by (simp only: nat_int)
qed


lemma unpack_values:
  "map snd (unpack width height pdata []) =
     concat (map (spec_pixels pdata) [0..<triplets (plane_bytes height width)])"
proof (cases "width = 668")
  case True
  show ?thesis unfolding True unpack_raw
    by (simp only: append_Nil map_snd_concat map_snd_writesA)
next
  case False
  show ?thesis unfolding unpack_other [OF False]
    by (simp only: append_Nil map_snd_concat map_snd_writesB)
qed

lemma spec_plane_triplets_catalog:
  "spec_plane_triplets 960 640 = 307200" "spec_plane_triplets 750 668 = 250500"
  by (simp_all add: spec_plane_triplets_def spec_plane_bytes_def)

text \<open>
  Claim C2. For every triplet \<open>(b0, b1, b2)\<close> of the packed plane, in both addressing
  strategies, the unpacker writes the even pixel \<open>(b0 << 4) | (b2 & 0x0F)\<close> and then the
  odd pixel \<open>(b1 << 4) | ((b2 & 0xF0) >> 4)\<close>, as 16-bit values. Whenever
  \<open>height * width * 3\<close> fits the 32-bit unsigned arithmetic of the source, the values of
  the write log of \<open>unpack\<close>, in order, are the specification's two pixels of triplet 0,
  of triplet 1, and so on up to the last triplet of the \<open>height * width * 3 / 2\<close>-byte
  plane, none left out. This holds of the two geometries of the catalog, whose planes have
  307200 and 250500 triplets, one for every two pixels of the frame. The source computes the
  pixels in promoted \<open>int\<close> arithmetic and truncates.
\<close>

theorem unpack_pixel_values:
  "(unat height * unat width * 3 < 2 ^ 32 \<longrightarrow>
      map snd (unpack width height pdata []) =
        concat (map (spec_pixels pdata) [0..<spec_plane_triplets height width]))
   \<and> map snd (unpack 640 960 pdata []) =
        concat (map (spec_pixels pdata) [0..<spec_plane_triplets 960 640])
   \<and> map snd (unpack 668 750 pdata []) =
        concat (map (spec_pixels pdata) [0..<spec_plane_triplets 750 668])
   \<and> spec_plane_triplets 960 640 = 640 * 960 div 2
   \<and> spec_plane_triplets 750 668 = 668 * 750 div 2"
proof -
  have g: "map snd (unpack width height pdata []) =
        concat (map (spec_pixels pdata) [0..<spec_plane_triplets height width])"
    if "unat height * unat width * 3 < 2 ^ 32" for width height
    unfolding unpack_values plane_bytes_exact [OF that] triplets_int spec_plane_triplets_def ..
  have a: "unat (960 :: 32 word) * unat (640 :: 32 word) * 3 < 2 ^ 32"
    and b: "unat (750 :: 32 word) * unat (668 :: 32 word) * 3 < 2 ^ 32"
    by simp_all
  show ?thesis
    using g [of height width] g [OF a] g [OF b] spec_plane_triplets_catalog by simp
qed

theorem unpack_pixel_values_witness:
  "unat (2 :: 32 word) * unat (2 :: 32 word) * 3 < 2 ^ 32
   \<and> map snd (unpack 2 2 ramp_plane []) = [0x002, 0x010, 0x035, 0x040]"
proof -
  have h: "unat (2 :: 32 word) * unat (2 :: 32 word) * 3 < 2 ^ 32"
    by simp
  have t: "spec_plane_triplets 2 2 = 2"
    by (simp add: spec_plane_triplets_def spec_plane_bytes_def)
  have l: "[0..<2] = [0, Suc 0]" by (simp add: upt_rec)
  have p: "spec_pixels ramp_plane 0 = [0x002, 0x010]"
    "spec_pixels ramp_plane (Suc 0) = [0x035, 0x040]"
    by (simp_all add: spec_pixels_def ramp_plane_def spec_pixel_even_def spec_pixel_odd_def)
  have "map snd (unpack 2 2 ramp_plane []) =
        concat (map (spec_pixels ramp_plane) [0..<spec_plane_triplets 2 2])"
    using unpack_pixel_values [of 2 2 ramp_plane] h by blast
  then have "map snd (unpack 2 2 ramp_plane []) = [0x002, 0x010, 0x035, 0x040]"
    unfolding t l by (simp add: p)
  then show ?thesis using h by blast
qed

lemma raw_750_triplets: "triplets (plane_bytes 750 668) = 250500"
  by (simp add: plane_bytes_raw triplets_raw)

lemma raw_750_log:
  "unpack 668 750 pdata buffer =
     buffer @ pair_log cursorA (\<lambda>k. pixel_even (pdata (3 * int k)) (pdata (3 * int k + 2)))
       (\<lambda>k. pixel_odd (pdata (3 * int k + 1)) (pdata (3 * int k + 2))) 250500"
  by (simp only: unpack_raw raw_750_triplets writesA_pair_log)

lemma raw_750_cursor: "fst (unpackA_loop (plane_bytes 750 668) pdata 0 0 buffer) = 498020"
  by (simp add: unpackA_loop_closed raw_750_triplets)

lemma raw_750_tail:
  assumes "498020 \<le> p"
  shows "store_read init (unpack 668 750 pdata buffer) p = store_read init buffer p"
proof -
  have "\<And>k. k < 250500 \<Longrightarrow> p \<noteq> cursorA k \<and> p \<noteq> cursorA k + 1"
    using cursorA_750 assms by fastforce
  then show ?thesis
    unfolding raw_750_log store_read_append by (rule pair_log_unwritten)
qed

lemma raw_750_writes: "length (unpack 668 750 pdata buffer) = length buffer + 501000"
  by (simp add: raw_750_log length_pair_log)

lemma depth_ir_triplets: "triplets (plane_bytes 960 640) = 307200"
  by (simp add: plane_bytes_depth_ir triplets_depth_ir)

lemma depth_ir_offsets: "[0, 960 * 640 div 2] = [0, 307200 :: 32 word]"
  by simp

lemma writesB_640:
  "k < 307200 \<Longrightarrow> writesB 640 [0, 307200] pdata k =
     [(int (posB k), pixel_even (pdata (3 * int k)) (pdata (3 * int k + 2))),
      (int (posB k) + 1, pixel_odd (pdata (3 * int k + 1)) (pdata (3 * int k + 2)))]"
  by (simp only: writesB_def offsetB_640)

lemma depth_ir_log:
  "unpack 640 960 pdata buffer =
     buffer @ pair_log (\<lambda>k. int (posB k))
       (\<lambda>k. pixel_even (pdata (3 * int k)) (pdata (3 * int k + 2)))
       (\<lambda>k. pixel_odd (pdata (3 * int k + 1)) (pdata (3 * int k + 2))) 307200"
proof -
  have "map (writesB 640 [0, 307200] pdata) [0..<307200] =
        map (\<lambda>k. [(int (posB k), pixel_even (pdata (3 * int k)) (pdata (3 * int k + 2))),
      (int (posB k) + 1, pixel_odd (pdata (3 * int k + 1)) (pdata (3 * int k + 2)))]) [0..<307200]"
    by (rule map_cong [OF refl]) (simp only: writesB_640 atLeastLessThan_iff set_upt)
  moreover have "unpack 640 960 pdata buffer =
     buffer @ concat (map (writesB 640 [0, 960 * 640 div 2] pdata)
                        [0..<triplets (plane_bytes 960 640)])"
    by (rule unpack_other) simp
  ultimately show ?thesis
    by (simp only: depth_ir_triplets depth_ir_offsets pair_log_def)
qed

lemma posB_apart:
  assumes "k < 307200" "k' < 307200" "k \<noteq> k'"
  shows "int (posB k) \<noteq> int (posB k') \<and> int (posB k) \<noteq> int (posB k') + 1"
proof -
  have "posB k \<noteq> posB k'" using posB_inj [OF assms(1,2)] assms(3) by blast
  moreover have "posB k \<noteq> posB k' + 1" using posB_even [of k] posB_even [of k'] by presburger
  ultimately show ?thesis by linarith
qed

lemma depth_ir_read:
  assumes "k < 307200"
  shows "store_read init (unpack 640 960 pdata buffer) (int (posB k)) =
           pixel_even (pdata (3 * int k)) (pdata (3 * int k + 2)) \<and>
         store_read init (unpack 640 960 pdata buffer) (int (posB k) + 1) =
           pixel_odd (pdata (3 * int k + 1)) (pdata (3 * int k + 2))"
  unfolding depth_ir_log store_read_append
  by (rule pair_log_written [where pos = "\<lambda>k. int (posB k)", OF posB_apart assms])

lemma pixel_zero: "pixel_even 0 0 = 0" "pixel_odd 0 0 = 0"
  by (simp_all add: pixel_even_def pixel_odd_def)

lemma depth_ir_zero:
  "store_read init (unpack 640 960 zero_plane buffer) p =
     (if 0 \<le> p \<and> p < 640 * 960 then 0 else store_read init buffer p)"
proof (cases "0 \<le> p \<and> p < 614400")
  case True
  then have "nat p < 614400" by linarith
  then obtain k where k: "k < 307200" and "nat p = posB k \<or> nat p = posB k + 1"
    using posB_cover by blast
  then have "p = int (posB k) \<or> p = int (posB k) + 1" using True by linarith
  then have "store_read init (unpack 640 960 zero_plane buffer) p = 0"
    using depth_ir_read [OF k, of init zero_plane buffer]
    by (auto simp add: zero_plane_def pixel_zero)
  then show ?thesis using True by auto
next
  case False
  have "\<And>k. k < 307200 \<Longrightarrow> p \<noteq> int (posB k) \<and> p \<noteq> int (posB k) + 1"
    using posB_bound False by fastforce
  then have "store_read init (unpack 640 960 zero_plane buffer) p = store_read init buffer p"
    unfolding depth_ir_log store_read_append by (rule pair_log_unwritten)
  then show ?thesis using False by auto
qed

text \<open>
  Claim C1, as amended. In the \<open>width == 668\<close> branch the \<open>k\<close>-th triplet is written
  at \<open>cursorA k\<close> and the next position, where the cursor starts at 0 and advances by
  two per triplet, except that it is first rewound by four whenever the triplet index is a
  nonzero multiple of 336 (the byte index a nonzero multiple of \<open>336 * 3\<close>). The cursor
  therefore ends at \<open>2 * T - 4 * ((T - 1) div 336)\<close> for \<open>T\<close> triplets. For 668 by 750
  the plane of \<open>750 * 668 * 3 / 2\<close> bytes causes \<open>750 * 668 = 501000\<close> writes, but the
  cursor ends at 498020: the positions from 498020 on keep what they held before the call.
\<close>

theorem raw_unpack_rewind:
  "unpack 668 height pdata buffer =
     buffer @ concat (map (writesA pdata) [0..<triplets (plane_bytes height 668)])
   \<and> cursorA 0 = 0
   \<and> cursorA (Suc k) = (if Suc k mod 336 = 0 then cursorA k + 2 - 4 else cursorA k + 2)
   \<and> fst (unpackA_loop (plane_bytes height 668) pdata 0 0 buffer) =
       2 * int (triplets (plane_bytes height 668))
         - 4 * int ((triplets (plane_bytes height 668) - 1) div 336)
   \<and> length (unpack 668 750 pdata buffer) = length buffer + 750 * 668
   \<and> fst (unpackA_loop (plane_bytes 750 668) pdata 0 0 buffer) = 498020
   \<and> (498020 \<le> p \<longrightarrow>
        store_read init (unpack 668 750 pdata buffer) p = store_read init buffer p)"
proof -
  have "cursorA 0 = 0" by (simp add: cursorA_def)
  moreover have "fst (unpackA_loop (plane_bytes height 668) pdata 0 0 buffer) =
       2 * int (triplets (plane_bytes height 668))
         - 4 * int ((triplets (plane_bytes height 668) - 1) div 336)"
    by (simp add: unpackA_loop_closed)
  moreover have "length (unpack 668 750 pdata buffer) = length buffer + 750 * 668"
    by (simp add: raw_750_writes)
  ultimately show ?thesis
    using unpack_raw [of height pdata buffer] cursorA_Suc [of k]
      raw_750_cursor [of pdata buffer] raw_750_tail [of p init pdata buffer]
    by blast
qed

theorem raw_unpack_rewind_witness:
  "(498020 :: int) \<le> 500999 \<and>
   store_read stale_array (unpack 668 750 zero_plane []) 500999 = 0xFFFF"
proof -
  have h: "(498020 :: int) \<le> 500999" by simp
  have "498020 \<le> (500999 :: int) \<longrightarrow>
          store_read stale_array (unpack 668 750 zero_plane []) 500999 =
          store_read stale_array [] 500999"
    using raw_unpack_rewind [of 750 zero_plane "[]" 0 500999 stale_array] by blast
  with h show ?thesis by (simp add: stale_array_def)
qed

text \<open>
  The claim as stated, with the output length read as the extent written: for 668 by 750 the
  cursor ends at 498020, not at \<open>750 * 668\<close>, and the last element of a
  \<open>750 * 668\<close> array still holds its old contents after an all-zero plane was unpacked.
\<close>

theorem raw_output_length_counterexample:
  "fst (unpackA_loop (plane_bytes 750 668) zero_plane 0 0 []) = 498020 \<and>
   fst (unpackA_loop (plane_bytes 750 668) zero_plane 0 0 []) \<noteq> uint (750 * 668 :: 32 word) \<and>
   store_read stale_array (unpack 668 750 zero_plane []) 500999 \<noteq> 0"
  using raw_750_cursor [of zero_plane "[]"] raw_750_tail [of 500999 stale_array zero_plane "[]"]
  by (simp add: stale_array_def)

text \<open>
  Claim C3. For every width other than 668 the write log is that of two running offsets
  starting at 0 and at \<open>height * width / 2\<close>, the offset of the \<open>k\<close>-th pair chosen by
  the parity \<open>(2 * k / width) % 2\<close> and advanced by two for every earlier pair of the same
  parity. For 640 by 960: an all-zero plane leaves 0 in every position from 0 up to
  \<open>640 * 960\<close> and nothing else is written; and for any plane the pixels of triplet
  \<open>k\<close> are found, after the call, at the offset the rule predicts for \<open>k\<close> (which is
  \<open>posB k\<close>) and the position after it.
\<close>

theorem depth_ir_addressing:
  "(width \<noteq> 668 \<longrightarrow>
      unpack width height pdata buffer =
        buffer @ concat (map (writesB width [0, height * width div 2] pdata)
                           [0..<triplets (plane_bytes height width)]))
   \<and> store_read init (unpack 640 960 zero_plane buffer) p =
       (if 0 \<le> p \<and> p < 640 * 960 then 0 else store_read init buffer p)
   \<and> (k < 640 * 960 div 2 \<longrightarrow>
        uint (offsetB 640 [0, 960 * 640 div 2] k) = int (posB k)
      \<and> uint (offsetB 640 [0, 960 * 640 div 2] k + 1) = int (posB k) + 1
      \<and> store_read init (unpack 640 960 pdata buffer) (uint (offsetB 640 [0, 960 * 640 div 2] k)) =
          spec_pixel_even (pdata (3 * int k)) (pdata (3 * int k + 2))
      \<and> store_read init (unpack 640 960 pdata buffer)
            (uint (offsetB 640 [0, 960 * 640 div 2] k + 1)) =
          spec_pixel_odd (pdata (3 * int k + 1)) (pdata (3 * int k + 2)))"
proof -
  have c: "k < 640 * 960 div 2 \<longrightarrow>
        uint (offsetB 640 [0, 960 * 640 div 2] k) = int (posB k)
      \<and> uint (offsetB 640 [0, 960 * 640 div 2] k + 1) = int (posB k) + 1
      \<and> store_read init (unpack 640 960 pdata buffer) (uint (offsetB 640 [0, 960 * 640 div 2] k)) =
          spec_pixel_even (pdata (3 * int k)) (pdata (3 * int k + 2))
      \<and> store_read init (unpack 640 960 pdata buffer)
            (uint (offsetB 640 [0, 960 * 640 div 2] k + 1)) =
          spec_pixel_odd (pdata (3 * int k + 1)) (pdata (3 * int k + 2))"
  proof
    assume "k < 640 * 960 div 2"
    then have k: "k < 307200" by simp
    show "uint (offsetB 640 [0, 960 * 640 div 2] k) = int (posB k)
      \<and> uint (offsetB 640 [0, 960 * 640 div 2] k + 1) = int (posB k) + 1
      \<and> store_read init (unpack 640 960 pdata buffer) (uint (offsetB 640 [0, 960 * 640 div 2] k)) =
          spec_pixel_even (pdata (3 * int k)) (pdata (3 * int k + 2))
      \<and> store_read init (unpack 640 960 pdata buffer)
            (uint (offsetB 640 [0, 960 * 640 div 2] k + 1)) =
          spec_pixel_odd (pdata (3 * int k + 1)) (pdata (3 * int k + 2))"
      unfolding depth_ir_offsets offsetB_640 [OF k]
      using depth_ir_read [OF k, of init pdata buffer]
      by (simp add: pixel_even_spec pixel_odd_spec)
  qed
  show ?thesis
    using unpack_other [of width height pdata buffer] depth_ir_zero [of init buffer p] c
    by blast
qed

theorem depth_ir_addressing_witness:
  "(640 :: 32 word) \<noteq> 668 \<and> (321 :: nat) < 640 * 960 div 2 \<and>
   unpack 640 960 ramp_plane [] =
     concat (map (writesB 640 [0, 960 * 640 div 2] ramp_plane)
               [0..<triplets (plane_bytes 960 640)]) \<and>
   store_read stale_array (unpack 640 960 zero_plane []) 614399 = 0 \<and>
   store_read stale_array (unpack 640 960 zero_plane []) 614400 = 0xFFFF \<and>
   store_read stale_array (unpack 640 960 ramp_plane []) 307202 = 0xC35 \<and>
   store_read stale_array (unpack 640 960 ramp_plane []) 307203 = 0xC4C"
proof -
  note t = depth_ir_addressing [of 640 960 ramp_plane "[]" stale_array 614399 321]
  note u = depth_ir_addressing [of 640 960 ramp_plane "[]" stale_array 614400 321]
  have w: "(640 :: 32 word) \<noteq> 668" and k: "(321 :: nat) < 640 * 960 div 2" by simp_all
  have a: "unpack 640 960 ramp_plane [] =
     [] @ concat (map (writesB 640 [0, 960 * 640 div 2] ramp_plane)
               [0..<triplets (plane_bytes 960 640)])"
    using t w by blast
  have z1: "store_read stale_array (unpack 640 960 zero_plane []) 614399 =
       (if 0 \<le> (614399 :: int) \<and> (614399 :: int) < 640 * 960 then 0
        else store_read stale_array [] 614399)"
    using t by blast
  have z2: "store_read stale_array (unpack 640 960 zero_plane []) 614400 =
       (if 0 \<le> (614400 :: int) \<and> (614400 :: int) < 640 * 960 then 0
        else store_read stale_array [] 614400)"
    using u by blast
  have p: "uint (offsetB 640 [0, 960 * 640 div 2] 321) = int (posB 321)"
    "uint (offsetB 640 [0, 960 * 640 div 2] 321 + 1) = int (posB 321) + 1"
    using t k by blast+
  have "store_read stale_array (unpack 640 960 ramp_plane [])
          (uint (offsetB 640 [0, 960 * 640 div 2] 321)) =
        spec_pixel_even (ramp_plane (3 * int 321)) (ramp_plane (3 * int 321 + 2))"
    "store_read stale_array (unpack 640 960 ramp_plane [])
          (uint (offsetB 640 [0, 960 * 640 div 2] 321 + 1)) =
        spec_pixel_odd (ramp_plane (3 * int 321 + 1)) (ramp_plane (3 * int 321 + 2))"
    using t k by blast+
  then have r: "store_read stale_array (unpack 640 960 ramp_plane []) 307202 = 0xC35"
    "store_read stale_array (unpack 640 960 ramp_plane []) 307203 = 0xC4C"
    unfolding p
    by (simp_all add: posB_def ramp_plane_def spec_pixel_even_def spec_pixel_odd_def)
  have z: "store_read stale_array (unpack 640 960 zero_plane []) 614399 = 0"
    "store_read stale_array (unpack 640 960 zero_plane []) 614400 = 0xFFFF"
    using z1 z2 by (simp_all add: stale_array_def)
  show ?thesis using w k a z r by simp
qed

section \<open>Properties of the session\<close>

subsection \<open>The retrying ioctl\<close>

lemma xioctl_Some_raw:
  assumes "xioctl env fh request w = Some y"
  shows "\<not> (ret (fst y) = - 1 \<and> errno (fst y) = EINTR) \<and> logged (snd y) = logged w \<and>
     (\<exists>n. calls (snd y) = calls w @ replicate (Suc n) (Ioctl fh request))"
proof -
  let ?P = "\<lambda>(env :: env) fh request w y.
     \<not> (ret (fst y) = - 1 \<and> errno (fst y) = EINTR) \<and> logged (snd y) = logged w \<and>
     (\<exists>n. calls (snd y) = calls w @ replicate (Suc n) (Ioctl fh request))"
  have step: "?P env fh request w y"
    if IH: "\<And>env fh request w y. xioctl' env fh request w = Some y \<Longrightarrow> ?P env fh request w y"
      and body: "(case sys env (Ioctl fh request) w of
          (r, w') \<Rightarrow>
            if - 1 = ret r \<and> EINTR = errno r \<and> errno r \<noteq> 0
            then xioctl' env fh request w' else Some (r, w')) = Some y"
    for xioctl' env fh request w y
  proof -
    let ?r = "env (length (calls w))"
    let ?w1 = "w\<lparr>calls := calls w @ [Ioctl fh request], mem := out_mem ?r\<rparr>"
    show ?thesis
    proof (cases "- 1 = ret ?r \<and> EINTR = errno ?r \<and> errno ?r \<noteq> 0")
      case True
      with body have "xioctl' env fh request ?w1 = Some y"
        by (simp add: sys_def Let_def)
      then have a: "\<not> (ret (fst y) = - 1 \<and> errno (fst y) = EINTR)"
        and b: "logged (snd y) = logged ?w1"
        and c: "\<exists>n. calls (snd y) = calls ?w1 @ replicate (Suc n) (Ioctl fh request)"
        using IH by blast+
      from c obtain n where
        "calls (snd y) = calls w @ Ioctl fh request # replicate (Suc n) (Ioctl fh request)"
        by auto
      then have "calls (snd y) = calls w @ replicate (Suc (Suc n)) (Ioctl fh request)"
        by simp
      then have "\<exists>n. calls (snd y) = calls w @ replicate (Suc n) (Ioctl fh request)"
        by (rule exI)
      with a b show ?thesis by simp
    next
      case False
      with body have y: "y = (?r, ?w1)"
        by (auto simp add: sys_def Let_def split: if_splits)
      have "calls ?w1 = calls w @ replicate (Suc 0) (Ioctl fh request)" by simp
      then have "\<exists>n. calls ?w1 = calls w @ replicate (Suc n) (Ioctl fh request)"
        by (rule exI)
      with False show ?thesis unfolding y by (auto simp add: EINTR_def)
    qed
  qed
  show ?thesis
    by (rule xioctl.raw_induct [where P = ?P, OF step assms])
qed

lemma xioctl_Some:
  assumes "xioctl env fh request w = Some (r, w')"
  shows "\<not> (ret r = - 1 \<and> errno r = EINTR)" and "logged w' = logged w"
    and "\<exists>n. calls w' = calls w @ replicate (Suc n) (Ioctl fh request)"
  using xioctl_Some_raw [OF assms] by simp_all

subsection \<open>Starting, stopping, the catalog and the wait\<close>

lemma start_unchanged:
  "start env impl w = Some (st, impl', w') \<Longrightarrow> st \<noteq> OK \<Longrightarrow> impl' = impl"
  unfolding start_def
  by (auto split: if_splits option.splits bool.splits prod.splits)

lemma stop_unchanged:
  "stop env impl w = Some (st, impl', w') \<Longrightarrow> st \<noteq> OK \<Longrightarrow> impl' = impl"
  unfolding stop_def
  by (auto split: if_splits option.splits bool.splits prod.splits)

lemma word32_of_nat_less:
  assumes "k < unat (n :: 32 word)"
  shows "(word_of_nat k :: 32 word) < n"
proof -
  have "unat n < 2 ^ LENGTH(32)" by (rule unsigned_less)
  then have "k < 2 ^ LENGTH(32)" using assms by simp
  then have "unat (word_of_nat k :: 32 word) = k" by (simp only: unat_of_nat) simp
  then show ?thesis using assms by (simp add: word_less_nat_alt)
qed

lemma start_loop_enqueued:
  "k \<le> unat (nVideoBuffers impl) \<Longrightarrow> enqueued env impl w k = Some wk \<Longrightarrow>
   start_loop env impl 0 w = start_loop env impl (word_of_nat k) wk"
proof (induction k arbitrary: wk)
  case 0
  then show ?case by simp
next
  case (Suc k)
  from Suc.prems(2) obtain w1 r where e: "enqueued env impl w k = Some w1"
    and x: "xioctl env (fd impl) (VIDIOC_QBUF (word_of_nat k)) w1 = Some (r, wk)"
    and r: "ret r \<noteq> - 1"
    by (auto split: option.splits if_splits)
  have lt: "(word_of_nat k :: 32 word) < nVideoBuffers impl"
    using Suc.prems(1) by (intro word32_of_nat_less) simp
  have "start_loop env impl 0 w = start_loop env impl (word_of_nat k) w1"
    using Suc.IH [OF _ e] Suc.prems(1) by simp
  also have "\<dots> = start_loop env impl (word_of_nat k + 1) wk"
    by (subst start_loop.simps) (simp add: lt x r)
  also have "word_of_nat k + 1 = (word_of_nat (Suc k) :: 32 word)" by simp
  finally show ?case .
qed

lemma start_enqueue_failure:
  assumes "\<not> started impl" "k < unat (nVideoBuffers impl)"
    and "enqueued env impl (LOG ''Starting device'' w) k = Some wk"
    and "xioctl env (fd impl) (VIDIOC_QBUF (word_of_nat k)) wk = Some (r, w1)"
    and "ret r = - 1"
  shows "start env impl w = Some (GENERIC_ERROR, impl, LOG ''mmap error'' w1)"
proof -
  have lt: "(word_of_nat k :: 32 word) < nVideoBuffers impl"
    by (rule word32_of_nat_less [OF assms(2)])
  have "start_loop env impl 0 (LOG ''Starting device'' w) =
        start_loop env impl (word_of_nat k) wk"
    using start_loop_enqueued [OF _ assms(3)] assms(2) by simp
  also have "\<dots> = Some (False, LOG ''mmap error'' w1)"
    by (subst start_loop.simps) (simp add: lt assms(4,5))
  finally show ?thesis using assms(1) by (simp add: start_def)
qed

lemma start_all_enqueued:
  assumes "\<not> started impl"
    and "enqueued env impl (LOG ''Starting device'' w) (unat (nVideoBuffers impl)) = Some wn"
    and "xioctl env (fd impl) VIDIOC_STREAMON wn = Some (r, w2)"
  shows "start env impl w =
     (if ret r = - 1 then Some (GENERIC_ERROR, impl, LOG ''VIDIOC_STREAMON error'' w2)
      else Some (OK, impl\<lparr>started := True\<rparr>, w2))"
proof -
  have "start_loop env impl 0 (LOG ''Starting device'' w) =
        start_loop env impl (word_of_nat (unat (nVideoBuffers impl))) wn"
    using start_loop_enqueued [OF _ assms(2)] by simp
  also have "\<dots> = Some (True, wn)"
    by (subst start_loop.simps) simp
  finally show ?thesis using assms(1,3) by (simp add: start_def)
qed

text \<open>
  Claim C7. \<open>start\<close> on a started session and \<open>stop\<close> on a session that is not
  started return \<open>BUSY\<close> at once, leaving the session as it was. Whenever \<open>start\<close> or
  \<open>stop\<close> returns a status other than \<open>OK\<close> the session state, and with it the
  started flag, is unchanged. When the driver refuses the enqueue of any buffer \<open>k\<close> of the
  pool, the buffers before it having been accepted, \<open>start\<close> logs the error and returns
  \<open>GENERIC_ERROR\<close> with the session unchanged, and asks the driver for nothing more. When
  all buffers are accepted the outcome of \<open>start\<close> is that of the stream-on request: on
  failure \<open>GENERIC_ERROR\<close>, a log entry and an unchanged session, on success \<open>OK\<close> and
  the started flag set. Likewise the outcome of \<open>stop\<close> on a started session is that of the
  stream-off request, with the flag cleared on success only.
\<close>

theorem start_stop_busy:
  "(started impl \<longrightarrow> start env impl w = Some (BUSY, impl, LOG ''Device already started'' w))
   \<and> (\<not> started impl \<longrightarrow>
        stop env impl w = Some (BUSY, impl, LOG ''Device already stopped'' w))
   \<and> (start env impl w = Some (st, impl', w') \<and> st \<noteq> OK \<longrightarrow> impl' = impl)
   \<and> (stop env impl w = Some (st, impl', w') \<and> st \<noteq> OK \<longrightarrow> impl' = impl)
   \<and> (\<not> started impl \<and> k < unat (nVideoBuffers impl)
        \<and> enqueued env impl (LOG ''Starting device'' w) k = Some wk
        \<and> xioctl env (fd impl) (VIDIOC_QBUF (word_of_nat k)) wk = Some (r, w1) \<and> ret r = - 1
        \<longrightarrow> start env impl w = Some (GENERIC_ERROR, impl, LOG ''mmap error'' w1))
   \<and> (\<not> started impl
        \<and> enqueued env impl (LOG ''Starting device'' w) (unat (nVideoBuffers impl)) = Some wn
        \<and> xioctl env (fd impl) VIDIOC_STREAMON wn = Some (r, w2)
        \<longrightarrow> start env impl w =
              (if ret r = - 1
               then Some (GENERIC_ERROR, impl, LOG ''VIDIOC_STREAMON error'' w2)
               else Some (OK, impl\<lparr>started := True\<rparr>, w2)))
   \<and> (started impl
        \<and> xioctl env (fd impl) VIDIOC_STREAMOFF (LOG ''Stopping device'' w) = Some (r, w2)
        \<longrightarrow> stop env impl w =
              (if ret r = - 1
               then Some (GENERIC_ERROR, impl, LOG ''VIDIOC_STREAMOFF error'' w2)
               else Some (OK, impl\<lparr>started := False\<rparr>, w2)))"
proof -
  have 1: "started impl \<longrightarrow>
        start env impl w = Some (BUSY, impl, LOG ''Device already started'' w)"
    by (simp add: start_def)
  have 2: "\<not> started impl \<longrightarrow>
        stop env impl w = Some (BUSY, impl, LOG ''Device already stopped'' w)"
    by (simp add: stop_def)
  have 7: "started impl
        \<and> xioctl env (fd impl) VIDIOC_STREAMOFF (LOG ''Stopping device'' w) = Some (r, w2)
        \<longrightarrow> stop env impl w =
              (if ret r = - 1
               then Some (GENERIC_ERROR, impl, LOG ''VIDIOC_STREAMOFF error'' w2)
               else Some (OK, impl\<lparr>started := False\<rparr>, w2))"
    by (simp add: stop_def)
  show ?thesis
    using 1 2 7 start_unchanged [of env impl w st impl' w']
      stop_unchanged [of env impl w st impl' w']
      start_enqueue_failure [of impl k env w wk r w1]
      start_all_enqueued [of impl env w wn r w2]
    by blast
qed

lemma enqueued_concrete:
  "xioctl (env_fail_at 0 EIO) (fd impl_idle) (VIDIOC_QBUF (word_of_nat 0))
      (LOG ''Starting device'' os0) =
     Some (reply_fail EIO,
           \<lparr>calls = [Ioctl 3 (VIDIOC_QBUF 0)], logged = [''Starting device''],
            mem = zero_plane\<rparr>)"
  "enqueued (env_fail_at 1 EIO) impl_idle (LOG ''Starting device'' os0) (Suc 0) =
     Some \<lparr>calls = [Ioctl 3 (VIDIOC_QBUF 0)], logged = [''Starting device''],
           mem = zero_plane\<rparr>"
  "xioctl (env_fail_at 1 EIO) (fd impl_idle) (VIDIOC_QBUF (word_of_nat (Suc 0)))
      \<lparr>calls = [Ioctl 3 (VIDIOC_QBUF 0)], logged = [''Starting device''], mem = zero_plane\<rparr> =
     Some (reply_fail EIO,
           \<lparr>calls = [Ioctl 3 (VIDIOC_QBUF 0), Ioctl 3 (VIDIOC_QBUF 1)],
            logged = [''Starting device''], mem = zero_plane\<rparr>)"
  "enqueued (env_fail_at 2 e) impl_idle (LOG ''Starting device'' os0) (Suc (Suc 0)) =
     Some \<lparr>calls = [Ioctl 3 (VIDIOC_QBUF 0), Ioctl 3 (VIDIOC_QBUF 1)],
           logged = [''Starting device''], mem = zero_plane\<rparr>"
  "xioctl (env_fail_at 2 EIO) (fd impl_idle) VIDIOC_STREAMON
      \<lparr>calls = [Ioctl 3 (VIDIOC_QBUF 0), Ioctl 3 (VIDIOC_QBUF 1)],
       logged = [''Starting device''], mem = zero_plane\<rparr> =
     Some (reply_fail EIO,
           \<lparr>calls = [Ioctl 3 (VIDIOC_QBUF 0), Ioctl 3 (VIDIOC_QBUF 1), Ioctl 3 VIDIOC_STREAMON],
            logged = [''Starting device''], mem = zero_plane\<rparr>)"
  "enqueued env_ok impl_idle (LOG ''Starting device'' os0) (Suc (Suc 0)) =
     Some \<lparr>calls = [Ioctl 3 (VIDIOC_QBUF 0), Ioctl 3 (VIDIOC_QBUF 1)],
           logged = [''Starting device''], mem = zero_plane\<rparr>"
  "xioctl env_ok (fd impl_idle) VIDIOC_STREAMON
      \<lparr>calls = [Ioctl 3 (VIDIOC_QBUF 0), Ioctl 3 (VIDIOC_QBUF 1)],
       logged = [''Starting device''], mem = zero_plane\<rparr> =
     Some (reply_ok,
           \<lparr>calls = [Ioctl 3 (VIDIOC_QBUF 0), Ioctl 3 (VIDIOC_QBUF 1), Ioctl 3 VIDIOC_STREAMON],
            logged = [''Starting device''], mem = zero_plane\<rparr>)"
  "xioctl (env_fail_at 0 EIO) (fd impl_streaming) VIDIOC_STREAMOFF
      (LOG ''Stopping device'' os0) =
     Some (reply_fail EIO,
           \<lparr>calls = [Ioctl 3 VIDIOC_STREAMOFF], logged = [''Stopping device''],
            mem = zero_plane\<rparr>)"
  by (simp_all add: xioctl.simps sys_def LOG_def impl_idle_def impl_streaming_def os0_def
      env_fail_at_def env_ok_def reply_fail_def reply_ok_def EIO_def EINTR_def)

theorem start_stop_busy_witness:
  "started impl_streaming
   \<and> start env_ok impl_streaming os0 =
       Some (BUSY, impl_streaming, LOG ''Device already started'' os0)
   \<and> \<not> started impl_idle
   \<and> stop env_ok impl_idle os0 = Some (BUSY, impl_idle, LOG ''Device already stopped'' os0)
   \<and> start (env_fail_at 0 EIO) impl_idle os0 =
       Some (GENERIC_ERROR, impl_idle,
             \<lparr>calls = [Ioctl 3 (VIDIOC_QBUF 0)],
              logged = [''Starting device'', ''mmap error''], mem = zero_plane\<rparr>)
   \<and> start (env_fail_at 1 EIO) impl_idle os0 =
       Some (GENERIC_ERROR, impl_idle,
             \<lparr>calls = [Ioctl 3 (VIDIOC_QBUF 0), Ioctl 3 (VIDIOC_QBUF 1)],
              logged = [''Starting device'', ''mmap error''], mem = zero_plane\<rparr>)
   \<and> start (env_fail_at 2 EIO) impl_idle os0 =
       Some (GENERIC_ERROR, impl_idle,
             \<lparr>calls = [Ioctl 3 (VIDIOC_QBUF 0), Ioctl 3 (VIDIOC_QBUF 1),
                       Ioctl 3 VIDIOC_STREAMON],
              logged = [''Starting device'', ''VIDIOC_STREAMON error''], mem = zero_plane\<rparr>)
   \<and> start env_ok impl_idle os0 =
       Some (OK, impl_idle\<lparr>started := True\<rparr>,
             \<lparr>calls = [Ioctl 3 (VIDIOC_QBUF 0), Ioctl 3 (VIDIOC_QBUF 1),
                       Ioctl 3 VIDIOC_STREAMON],
              logged = [''Starting device''], mem = zero_plane\<rparr>)
   \<and> stop (env_fail_at 0 EIO) impl_streaming os0 =
       Some (GENERIC_ERROR, impl_streaming,
             \<lparr>calls = [Ioctl 3 VIDIOC_STREAMOFF],
              logged = [''Stopping device'', ''VIDIOC_STREAMOFF error''], mem = zero_plane\<rparr>)
   \<and> started (fst (snd (the (stop (env_fail_at 0 EIO) impl_streaming os0))))"
proof -
  have s: "started impl_streaming" and i: "\<not> started impl_idle"
    by (simp_all add: impl_streaming_def impl_idle_def)
  have n: "unat (nVideoBuffers impl_idle) = Suc (Suc 0)" by (simp add: impl_idle_def)
  have f: "ret (reply_fail EIO) = - 1" "ret reply_ok \<noteq> - 1"
    by (simp_all add: reply_fail_def reply_ok_def)
  have e0: "enqueued env impl_idle (LOG ''Starting device'' os0) 0 =
              Some (LOG ''Starting device'' os0)" for env
    by simp
  have 1: "start env_ok impl_streaming os0 =
       Some (BUSY, impl_streaming, LOG ''Device already started'' os0)"
    using start_stop_busy [of impl_streaming env_ok os0] s by blast
  have 2: "stop env_ok impl_idle os0 = Some (BUSY, impl_idle, LOG ''Device already stopped'' os0)"
    using start_stop_busy [of impl_idle env_ok os0] i by blast
  have "start (env_fail_at 0 EIO) impl_idle os0 =
          Some (GENERIC_ERROR, impl_idle, LOG ''mmap error''
            \<lparr>calls = [Ioctl 3 (VIDIOC_QBUF 0)], logged = [''Starting device''],
             mem = zero_plane\<rparr>)"
    using start_stop_busy [of impl_idle "env_fail_at 0 EIO" os0 _ _ _ 0
        "LOG ''Starting device'' os0" "reply_fail EIO"
        "\<lparr>calls = [Ioctl 3 (VIDIOC_QBUF 0)], logged = [''Starting device''],
          mem = zero_plane\<rparr>"]
      i n e0 enqueued_concrete(1) f(1)
    by simp
  then have 3: "start (env_fail_at 0 EIO) impl_idle os0 =
       Some (GENERIC_ERROR, impl_idle,
             \<lparr>calls = [Ioctl 3 (VIDIOC_QBUF 0)],
              logged = [''Starting device'', ''mmap error''], mem = zero_plane\<rparr>)"
    by (simp add: LOG_def)
  have "start (env_fail_at 1 EIO) impl_idle os0 =
          Some (GENERIC_ERROR, impl_idle, LOG ''mmap error''
            \<lparr>calls = [Ioctl 3 (VIDIOC_QBUF 0), Ioctl 3 (VIDIOC_QBUF 1)],
             logged = [''Starting device''], mem = zero_plane\<rparr>)"
    using start_stop_busy [of impl_idle "env_fail_at 1 EIO" os0 _ _ _ "Suc 0"
        "\<lparr>calls = [Ioctl 3 (VIDIOC_QBUF 0)], logged = [''Starting device''],
          mem = zero_plane\<rparr>" "reply_fail EIO"
        "\<lparr>calls = [Ioctl 3 (VIDIOC_QBUF 0), Ioctl 3 (VIDIOC_QBUF 1)],
          logged = [''Starting device''], mem = zero_plane\<rparr>"]
      i n enqueued_concrete(2,3) f(1)
    by simp
  then have 4: "start (env_fail_at 1 EIO) impl_idle os0 =
       Some (GENERIC_ERROR, impl_idle,
             \<lparr>calls = [Ioctl 3 (VIDIOC_QBUF 0), Ioctl 3 (VIDIOC_QBUF 1)],
              logged = [''Starting device'', ''mmap error''], mem = zero_plane\<rparr>)"
    by (simp add: LOG_def)
  have "start (env_fail_at 2 EIO) impl_idle os0 =
          (if ret (reply_fail EIO) = - 1
           then Some (GENERIC_ERROR, impl_idle, LOG ''VIDIOC_STREAMON error''
             \<lparr>calls = [Ioctl 3 (VIDIOC_QBUF 0), Ioctl 3 (VIDIOC_QBUF 1),
                       Ioctl 3 VIDIOC_STREAMON],
              logged = [''Starting device''], mem = zero_plane\<rparr>)
           else Some (OK, impl_idle\<lparr>started := True\<rparr>,
             \<lparr>calls = [Ioctl 3 (VIDIOC_QBUF 0), Ioctl 3 (VIDIOC_QBUF 1),
                       Ioctl 3 VIDIOC_STREAMON],
              logged = [''Starting device''], mem = zero_plane\<rparr>))"
    using start_stop_busy [of impl_idle "env_fail_at 2 EIO" os0 _ _ _ _ _ "reply_fail EIO" _
        "\<lparr>calls = [Ioctl 3 (VIDIOC_QBUF 0), Ioctl 3 (VIDIOC_QBUF 1)],
          logged = [''Starting device''], mem = zero_plane\<rparr>"
        "\<lparr>calls = [Ioctl 3 (VIDIOC_QBUF 0), Ioctl 3 (VIDIOC_QBUF 1),
                  Ioctl 3 VIDIOC_STREAMON],
          logged = [''Starting device''], mem = zero_plane\<rparr>"]
      i n enqueued_concrete(4) [of EIO] enqueued_concrete(5)
    by simp
  then have 5: "start (env_fail_at 2 EIO) impl_idle os0 =
       Some (GENERIC_ERROR, impl_idle,
             \<lparr>calls = [Ioctl 3 (VIDIOC_QBUF 0), Ioctl 3 (VIDIOC_QBUF 1),
                       Ioctl 3 VIDIOC_STREAMON],
              logged = [''Starting device'', ''VIDIOC_STREAMON error''], mem = zero_plane\<rparr>)"
    by (simp add: LOG_def f)
  have "start env_ok impl_idle os0 =
          (if ret reply_ok = - 1
           then Some (GENERIC_ERROR, impl_idle, LOG ''VIDIOC_STREAMON error''
             \<lparr>calls = [Ioctl 3 (VIDIOC_QBUF 0), Ioctl 3 (VIDIOC_QBUF 1),
                       Ioctl 3 VIDIOC_STREAMON],
              logged = [''Starting device''], mem = zero_plane\<rparr>)
           else Some (OK, impl_idle\<lparr>started := True\<rparr>,
             \<lparr>calls = [Ioctl 3 (VIDIOC_QBUF 0), Ioctl 3 (VIDIOC_QBUF 1),
                       Ioctl 3 VIDIOC_STREAMON],
              logged = [''Starting device''], mem = zero_plane\<rparr>))"
    using start_stop_busy [of impl_idle env_ok os0 _ _ _ _ _ reply_ok _
        "\<lparr>calls = [Ioctl 3 (VIDIOC_QBUF 0), Ioctl 3 (VIDIOC_QBUF 1)],
          logged = [''Starting device''], mem = zero_plane\<rparr>"
        "\<lparr>calls = [Ioctl 3 (VIDIOC_QBUF 0), Ioctl 3 (VIDIOC_QBUF 1),
                  Ioctl 3 VIDIOC_STREAMON],
          logged = [''Starting device''], mem = zero_plane\<rparr>"]
      i n enqueued_concrete(6,7)
    by simp
  then have 6: "start env_ok impl_idle os0 =
       Some (OK, impl_idle\<lparr>started := True\<rparr>,
             \<lparr>calls = [Ioctl 3 (VIDIOC_QBUF 0), Ioctl 3 (VIDIOC_QBUF 1),
                       Ioctl 3 VIDIOC_STREAMON],
              logged = [''Starting device''], mem = zero_plane\<rparr>)"
    by (simp add: f)
  have "stop (env_fail_at 0 EIO) impl_streaming os0 =
          (if ret (reply_fail EIO) = - 1
           then Some (GENERIC_ERROR, impl_streaming, LOG ''VIDIOC_STREAMOFF error''
             \<lparr>calls = [Ioctl 3 VIDIOC_STREAMOFF], logged = [''Stopping device''],
              mem = zero_plane\<rparr>)
           else Some (OK, impl_streaming\<lparr>started := False\<rparr>,
             \<lparr>calls = [Ioctl 3 VIDIOC_STREAMOFF], logged = [''Stopping device''],
              mem = zero_plane\<rparr>))"
    using start_stop_busy [of impl_streaming "env_fail_at 0 EIO" os0 _ _ _ _ _ "reply_fail EIO"
        _ _ "\<lparr>calls = [Ioctl 3 VIDIOC_STREAMOFF], logged = [''Stopping device''],
              mem = zero_plane\<rparr>"]
      s enqueued_concrete(8)
    by simp
  then have 7: "stop (env_fail_at 0 EIO) impl_streaming os0 =
       Some (GENERIC_ERROR, impl_streaming,
             \<lparr>calls = [Ioctl 3 VIDIOC_STREAMOFF],
              logged = [''Stopping device'', ''VIDIOC_STREAMOFF error''], mem = zero_plane\<rparr>)"
    by (simp add: LOG_def f)
  then have 8: "started (fst (snd (the (stop (env_fail_at 0 EIO) impl_streaming os0))))"
    using s by simp
  show ?thesis using s i 1 2 3 4 5 6 7 8 by blast
qed

text \<open>
  Claim C9, as amended. Every call of \<open>getAvailableFrameTypes\<close> succeeds and appends
  exactly the two catalog entries, in order, to the vector the caller passes: 640 by 960
  \<open>depth_ir\<close>, then 668 by 750 \<open>raw\<close>, each with calibration offset 0 and gain 1. The
  vector of a caller that passes an empty one is exactly the catalog afterwards.
\<close>

theorem getAvailableFrameTypes_catalog:
  "getAvailableFrameTypes types =
     (OK, types @
       [\<lparr>frame_width = 640, frame_height = 960, frame_type = ''depth_ir'',
          cal_data = \<lparr>cal_offset = 0, cal_gain = 1\<rparr>\<rparr>,
        \<lparr>frame_width = 668, frame_height = 750, frame_type = ''raw'',
          cal_data = \<lparr>cal_offset = 0, cal_gain = 1\<rparr>\<rparr>])
   \<and> getAvailableFrameTypes [] =
     (OK, [\<lparr>frame_width = 640, frame_height = 960, frame_type = ''depth_ir'',
             cal_data = \<lparr>cal_offset = 0, cal_gain = 1\<rparr>\<rparr>,
           \<lparr>frame_width = 668, frame_height = 750, frame_type = ''raw'',
             cal_data = \<lparr>cal_offset = 0, cal_gain = 1\<rparr>\<rparr>])"
  by (simp add: getAvailableFrameTypes_def)

text \<open>
  The claim as stated: the vector is not cleared, so a caller that passes a vector holding
  one entry already finds three entries in it after the call, not the catalog of two.
\<close>

theorem getAvailableFrameTypes_counterexample:
  "snd (getAvailableFrameTypes [details_tiny]) \<noteq>
     [\<lparr>frame_width = 640, frame_height = 960, frame_type = ''depth_ir'',
        cal_data = \<lparr>cal_offset = 0, cal_gain = 1\<rparr>\<rparr>,
      \<lparr>frame_width = 668, frame_height = 750, frame_type = ''raw'',
        cal_data = \<lparr>cal_offset = 0, cal_gain = 1\<rparr>\<rparr>]
   \<and> length (snd (getAvailableFrameTypes [details_tiny])) = 3"
  by (simp add: getAvailableFrameTypes_def)

lemma getFrame_first_call:
  assumes "getFrame env impl buffer w = Some (st, buffer', w')"
  shows "take (Suc (length (calls w))) (calls w') = calls w @ [Select (fd impl + 1) 4 0]"
proof -
  let ?s = "Select (fd impl + 1) 4 0"
  let ?w1 = "w\<lparr>calls := calls w @ [?s], mem := out_mem (env (length (calls w)))\<rparr>"
  have "\<exists>rest. calls w' = calls w @ ?s # rest"
  proof (cases "ret (env (length (calls w))) = - 1 \<or> ret (env (length (calls w))) = 0")
    case True
    with assms have "calls w' = calls w @ [?s]"
      by (auto simp add: getFrame_def sys_def Let_def LOG_def)
    then show ?thesis by simp
  next
    case False
    with assms obtain d w2 where dq: "xioctl env (fd impl) VIDIOC_DQBUF ?w1 = Some (d, w2)"
      by (auto simp add: getFrame_def sys_def Let_def split: option.splits)
    from xioctl_Some(3) [OF dq] obtain n where
      c2: "calls w2 = calls w @ ?s # replicate (Suc n) (Ioctl (fd impl) VIDIOC_DQBUF)"
      by auto
    let ?w3 = "if ret d = - 1 then LOG ''VIDIOC_DQBUF error'' w2 else w2"
    have c3: "calls ?w3 = calls w2" by (simp add: LOG_def)
    show ?thesis
    proof (cases "(ret d = - 1 \<and> errno d \<noteq> EAGAIN \<and> errno d \<noteq> EIO) \<or>
                  nVideoBuffers impl \<le> out_index d")
      case True
      with assms False dq have "calls w' = calls w2"
        by (auto simp add: getFrame_def sys_def Let_def LOG_def split: if_splits)
      then show ?thesis using c2 by simp
    next
      case stage: False
      with assms False dq obtain q w4 where
        rq: "xioctl env (fd impl) (VIDIOC_QBUF (out_index d)) ?w3 = Some (q, w4)"
        and w': "calls w' = calls w4"
        by (auto simp add: getFrame_def sys_def Let_def LOG_def split: if_splits option.splits)
      from xioctl_Some(3) [OF rq] obtain m where
        "calls w4 = calls ?w3 @ replicate (Suc m) (Ioctl (fd impl) (VIDIOC_QBUF (out_index d)))"
        by auto
      then show ?thesis unfolding w' c3 c2 by simp
    qed
  qed
  then show ?thesis by auto
qed

text \<open>
  Claim C6. \<open>getFrame\<close> first waits on the device with \<open>select\<close> and a timeout of 4
  seconds and 0 microseconds. When \<open>select\<close> reports that nothing became ready (it
  returns 0) the call returns \<open>GENERIC_ERROR\<close>, the output array is unchanged, and the
  wait is the only call made: nothing is dequeued and nothing is queued. \<open>getFrame\<close> never
  assigns to the session state, so it is unchanged on every path.
\<close>

theorem getFrame_timeout:
  "(ret (env (length (calls w))) = 0 \<longrightarrow>
      getFrame env impl buffer w =
        Some (GENERIC_ERROR, buffer,
              LOG ''select timeout''
                (w\<lparr>calls := calls w @ [Select (fd impl + 1) 4 0],
                   mem := out_mem (env (length (calls w)))\<rparr>)))
   \<and> (getFrame env impl buffer w = Some (st, buffer', w') \<longrightarrow>
        take (Suc (length (calls w))) (calls w') = calls w @ [Select (fd impl + 1) 4 0])"
  using getFrame_first_call [of env impl buffer w st buffer' w']
  by (simp add: getFrame_def sys_def Let_def)

theorem getFrame_timeout_witness:
  "ret (env_never_ready (length (calls os0))) = 0
   \<and> getFrame env_never_ready impl_streaming [] os0 =
       Some (GENERIC_ERROR, [],
             \<lparr>calls = [Select 4 4 0], logged = [''select timeout''], mem = zero_plane\<rparr>)
   \<and> take (Suc (length (calls os0)))
        (calls \<lparr>calls = [Select 4 4 0], logged = [''select timeout''], mem = zero_plane\<rparr>) =
      calls os0 @ [Select (fd impl_streaming + 1) 4 0]"
proof -
  have h: "ret (env_never_ready (length (calls os0))) = 0"
    by (simp add: env_never_ready_def reply_ok_def)
  have e: "LOG ''select timeout''
                (os0\<lparr>calls := calls os0 @ [Select (fd impl_streaming + 1) 4 0],
                   mem := out_mem (env_never_ready (length (calls os0)))\<rparr>) =
           \<lparr>calls = [Select 4 4 0], logged = [''select timeout''], mem = zero_plane\<rparr>"
    by (simp add: LOG_def os0_def impl_streaming_def impl_idle_def env_never_ready_def
        reply_ok_def)
  have 1: "getFrame env_never_ready impl_streaming [] os0 =
       Some (GENERIC_ERROR, [],
             \<lparr>calls = [Select 4 4 0], logged = [''select timeout''], mem = zero_plane\<rparr>)"
    using getFrame_timeout [of env_never_ready os0 impl_streaming "[]"] h
    unfolding e by blast
  have 2: "take (Suc (length (calls os0)))
        (calls \<lparr>calls = [Select 4 4 0], logged = [''select timeout''], mem = zero_plane\<rparr>) =
      calls os0 @ [Select (fd impl_streaming + 1) 4 0]"
    using getFrame_timeout [of env_never_ready os0 impl_streaming "[]" GENERIC_ERROR "[]"
        "\<lparr>calls = [Select 4 4 0], logged = [''select timeout''], mem = zero_plane\<rparr>"] 1
    by blast
  show ?thesis using h 1 2 by blast
qed

subsection \<open>Setting the frame type\<close>

lemma setFrameType_configure_OK:
  "setFrameType_configure env details impl w = Some (OK, impl', w') \<Longrightarrow>
   frameDetails impl' = details"
  unfolding setFrameType_configure_def
  by (auto simp add: Let_def split: if_splits option.splits bool.splits prod.splits)

lemma setFrameType_OK:
  assumes "setFrameType differs env details impl w = Some (OK, impl', w')"
  shows "frameDetails impl' = details \<or> (impl' = impl \<and> \<not> differs details (frameDetails impl))"
  using assms setFrameType_configure_OK
  unfolding setFrameType_def
  by (fastforce split: if_splits prod.splits bool.splits)

text \<open>
  Claim C8. When the requested geometry does not differ from the stored one and the pool
  holds at least one buffer, \<open>setFrameType\<close> returns \<open>OK\<close> with the session state and
  the record of calls exactly as they were: no driver command is issued, and the buffer
  count, the mapped buffers and the stored geometry are unchanged. Hence, for a comparison
  under which a geometry does not differ from itself, a call that succeeded and left at
  least one buffer makes the next call with the same geometry such a call, whatever the
  environment does.
\<close>

theorem setFrameType_same_geometry:
  "(\<not> differs details (frameDetails impl) \<and> nVideoBuffers impl \<noteq> 0 \<longrightarrow>
      setFrameType differs env details impl w = Some (OK, impl, w))
   \<and> (\<not> differs details details
        \<and> setFrameType differs env details impl w = Some (OK, impl', w')
        \<and> nVideoBuffers impl' \<noteq> 0 \<longrightarrow>
      setFrameType differs env2 details impl' w' = Some (OK, impl', w'))"
proof -
  have a: "\<not> differs details (frameDetails impl) \<and> nVideoBuffers impl \<noteq> 0 \<longrightarrow>
      setFrameType differs env details impl w = Some (OK, impl, w)"
    by (simp add: setFrameType_def)
  have b: "setFrameType differs env2 details impl' w' = Some (OK, impl', w')"
    if "\<not> differs details details"
      and "setFrameType differs env details impl w = Some (OK, impl', w')"
      and "nVideoBuffers impl' \<noteq> 0"
  proof -
    have "\<not> differs details (frameDetails impl')"
      using setFrameType_OK [OF that(2)] that(1) by auto
    then show ?thesis using that(3) by (simp add: setFrameType_def)
  qed
  show ?thesis using a b by blast
qed

lemma setFrameType_reallocates:
  "\<exists>impl' w'. setFrameType differs_fields env_ok details_raw impl_idle os0 = Some (OK, impl', w')
     \<and> nVideoBuffers impl' = 4 \<and> length (calls w') = 14"
  by (simp add: setFrameType_def setFrameType_configure_def setFrameType_unmap_loop.simps
      setFrameType_map_loop.simps xioctl.simps sys_def LOG_def impl_idle_def os0_def
      env_ok_def reply_ok_def EINTR_def MAP_FAILED_def differs_fields_def details_raw_def
      details_tiny_def Let_def)

theorem setFrameType_same_geometry_witness:
  "\<not> differs_fields details_tiny (frameDetails impl_idle) \<and> nVideoBuffers impl_idle \<noteq> 0
   \<and> setFrameType differs_fields env_ok details_tiny impl_idle os0 = Some (OK, impl_idle, os0)
   \<and> \<not> differs_fields details_raw details_raw
   \<and> (\<exists>impl' w'.
        setFrameType differs_fields env_ok details_raw impl_idle os0 = Some (OK, impl', w')
        \<and> nVideoBuffers impl' \<noteq> 0
        \<and> setFrameType differs_fields (env_fail_at 0 EIO) details_raw impl' w' =
            Some (OK, impl', w'))"
proof -
  have h: "\<not> differs_fields details_tiny (frameDetails impl_idle)" "nVideoBuffers impl_idle \<noteq> 0"
    "\<not> differs_fields details_raw details_raw"
    by (simp_all add: differs_fields_def impl_idle_def)
  have 1: "setFrameType differs_fields env_ok details_tiny impl_idle os0 =
             Some (OK, impl_idle, os0)"
    using setFrameType_same_geometry [of differs_fields details_tiny impl_idle env_ok os0] h
    by blast
  obtain impl' w' where
    f: "setFrameType differs_fields env_ok details_raw impl_idle os0 = Some (OK, impl', w')"
    and n: "nVideoBuffers impl' = 4"
    using setFrameType_reallocates by blast
  have n': "nVideoBuffers impl' \<noteq> 0" using n by simp
  have "setFrameType differs_fields (env_fail_at 0 EIO) details_raw impl' w' =
          Some (OK, impl', w')"
    using setFrameType_same_geometry [of differs_fields details_raw impl_idle env_ok os0
        impl' w' "env_fail_at 0 EIO"] h(3) f n'
    by blast
  then show ?thesis using h 1 f n' by blast
qed

subsection \<open>Dequeueing a frame\<close>

lemma getFrame_ready:
  assumes "ret (env (length (calls w))) \<noteq> - 1" "ret (env (length (calls w))) \<noteq> 0"
    and "xioctl env (fd impl) VIDIOC_DQBUF (snd (sys env (Select (fd impl + 1) 4 0) w)) =
           Some (d, w2)"
  shows "getFrame env impl buffer w =
     (if dequeue_fatal d then Some (GENERIC_ERROR, buffer, dequeue_logged d w2)
      else if nVideoBuffers impl \<le> out_index d
      then Some (GENERIC_ERROR, buffer,
                 LOG ''Not enough buffers avaialable'' (dequeue_logged d w2))
      else
        (case xioctl env (fd impl) (VIDIOC_QBUF (out_index d)) (dequeue_logged d w2) of
           None \<Rightarrow> None
         | Some (q, w4) \<Rightarrow>
             Some (if ret q = - 1 then GENERIC_ERROR else OK,
                   unpack (frame_width (frameDetails impl)) (frame_height (frameDetails impl))
                     (\<lambda>i. mem (dequeue_logged d w2)
                            (buf_start (videoBuffers impl (unat (out_index d))) + i)) buffer,
                   if ret q = - 1 then LOG ''VIDIOC_QBUF error'' w4 else w4)))"
  using assms
  by (auto simp add: getFrame_def sys_def Let_def dequeue_fatal_def dequeue_logged_def
      split: option.splits)

text \<open>
  Claim C5, as amended. Once \<open>select\<close> has reported readiness and the dequeue ioctl has
  returned the reply \<open>d\<close>: a fatal dequeue makes the call return \<open>GENERIC_ERROR\<close>; so
  does a reported index that is not below the buffer count; in both cases nothing is
  unpacked. Otherwise (also after a tolerated \<open>EAGAIN\<close> or \<open>EIO\<close>) the buffer with the
  reported index is unpacked and queued again, and the call returns \<open>GENERIC_ERROR\<close> when
  that last ioctl fails and \<open>OK\<close> when it succeeds. So a call that returns fails exactly
  when the dequeue was fatal, the index was out of range, or the re-queue failed.
\<close>

theorem getFrame_after_dequeue:
  "ret (env (length (calls w))) \<noteq> - 1 \<and> ret (env (length (calls w))) \<noteq> 0
   \<and> xioctl env (fd impl) VIDIOC_DQBUF (snd (sys env (Select (fd impl + 1) 4 0) w)) =
        Some (d, w2) \<longrightarrow>
     (dequeue_fatal d \<longrightarrow>
        getFrame env impl buffer w = Some (GENERIC_ERROR, buffer, dequeue_logged d w2))
   \<and> (\<not> dequeue_fatal d \<and> nVideoBuffers impl \<le> out_index d \<longrightarrow>
        getFrame env impl buffer w =
          Some (GENERIC_ERROR, buffer,
                LOG ''Not enough buffers avaialable'' (dequeue_logged d w2)))
   \<and> (\<not> dequeue_fatal d \<and> out_index d < nVideoBuffers impl
        \<and> xioctl env (fd impl) (VIDIOC_QBUF (out_index d)) (dequeue_logged d w2) = Some (q, w4)
        \<longrightarrow>
        getFrame env impl buffer w =
          Some (if ret q = - 1 then GENERIC_ERROR else OK,
                unpack (frame_width (frameDetails impl)) (frame_height (frameDetails impl))
                  (\<lambda>i. mem (dequeue_logged d w2)
                         (buf_start (videoBuffers impl (unat (out_index d))) + i)) buffer,
                if ret q = - 1 then LOG ''VIDIOC_QBUF error'' w4 else w4))
   \<and> (getFrame env impl buffer w = Some (st, buffer', w') \<longrightarrow>
        (st \<noteq> OK) =
          (dequeue_fatal d \<or> nVideoBuffers impl \<le> out_index d
           \<or> (\<exists>q w4. xioctl env (fd impl) (VIDIOC_QBUF (out_index d)) (dequeue_logged d w2) =
                        Some (q, w4) \<and> ret q = - 1)))"
proof (intro impI, elim conjE)
  assume a: "ret (env (length (calls w))) \<noteq> - 1" "ret (env (length (calls w))) \<noteq> 0"
    "xioctl env (fd impl) VIDIOC_DQBUF (snd (sys env (Select (fd impl + 1) 4 0) w)) = Some (d, w2)"
  note g = getFrame_ready [OF a, of buffer]
  have 1: "dequeue_fatal d \<longrightarrow>
        getFrame env impl buffer w = Some (GENERIC_ERROR, buffer, dequeue_logged d w2)"
    using g by simp
  have 2: "\<not> dequeue_fatal d \<and> nVideoBuffers impl \<le> out_index d \<longrightarrow>
        getFrame env impl buffer w =
          Some (GENERIC_ERROR, buffer,
                LOG ''Not enough buffers avaialable'' (dequeue_logged d w2))"
    using g by simp
  have 3: "\<not> dequeue_fatal d \<and> out_index d < nVideoBuffers impl
        \<and> xioctl env (fd impl) (VIDIOC_QBUF (out_index d)) (dequeue_logged d w2) = Some (q, w4)
        \<longrightarrow>
        getFrame env impl buffer w =
          Some (if ret q = - 1 then GENERIC_ERROR else OK,
                unpack (frame_width (frameDetails impl)) (frame_height (frameDetails impl))
                  (\<lambda>i. mem (dequeue_logged d w2)
                         (buf_start (videoBuffers impl (unat (out_index d))) + i)) buffer,
                if ret q = - 1 then LOG ''VIDIOC_QBUF error'' w4 else w4)"
    using g by (simp add: not_le [symmetric])
  have 4: "getFrame env impl buffer w = Some (st, buffer', w') \<longrightarrow>
        (st \<noteq> OK) =
          (dequeue_fatal d \<or> nVideoBuffers impl \<le> out_index d
           \<or> (\<exists>q w4. xioctl env (fd impl) (VIDIOC_QBUF (out_index d)) (dequeue_logged d w2) =
                        Some (q, w4) \<and> ret q = - 1))"
    unfolding g by (auto split: option.splits if_splits)
  show "(dequeue_fatal d \<longrightarrow>
        getFrame env impl buffer w = Some (GENERIC_ERROR, buffer, dequeue_logged d w2))
   \<and> (\<not> dequeue_fatal d \<and> nVideoBuffers impl \<le> out_index d \<longrightarrow>
        getFrame env impl buffer w =
          Some (GENERIC_ERROR, buffer,
                LOG ''Not enough buffers avaialable'' (dequeue_logged d w2)))
   \<and> (\<not> dequeue_fatal d \<and> out_index d < nVideoBuffers impl
        \<and> xioctl env (fd impl) (VIDIOC_QBUF (out_index d)) (dequeue_logged d w2) = Some (q, w4)
        \<longrightarrow>
        getFrame env impl buffer w =
          Some (if ret q = - 1 then GENERIC_ERROR else OK,
                unpack (frame_width (frameDetails impl)) (frame_height (frameDetails impl))
                  (\<lambda>i. mem (dequeue_logged d w2)
                         (buf_start (videoBuffers impl (unat (out_index d))) + i)) buffer,
                if ret q = - 1 then LOG ''VIDIOC_QBUF error'' w4 else w4))
   \<and> (getFrame env impl buffer w = Some (st, buffer', w') \<longrightarrow>
        (st \<noteq> OK) =
          (dequeue_fatal d \<or> nVideoBuffers impl \<le> out_index d
           \<or> (\<exists>q w4. xioctl env (fd impl) (VIDIOC_QBUF (out_index d)) (dequeue_logged d w2) =
                        Some (q, w4) \<and> ret q = - 1)))"
    using 1 2 3 4 by blast
qed

lemma getFrame_requeue_fails:
  "getFrame (env_ready_fail_at 2 EIO) impl_streaming [] os0 =
     Some (GENERIC_ERROR,
           unpack 2 2 (\<lambda>i. zero_plane (65536 + i)) [],
           \<lparr>calls = [Select 4 4 0, Ioctl 3 VIDIOC_DQBUF, Ioctl 3 (VIDIOC_QBUF 0)],
            logged = [''VIDIOC_QBUF error''], mem = zero_plane\<rparr>)"
  by (simp add: getFrame_def xioctl.simps sys_def LOG_def impl_idle_def impl_streaming_def
      os0_def env_ready_fail_at_def reply_fail_def reply_ok_def reply_ready_def EIO_def
      EINTR_def EAGAIN_def details_tiny_def buffers0_def Let_def)

text \<open>
  The claim as stated: here the dequeue succeeds and reports index 0 of a pool of two, and
  the call still fails, because queueing the buffer again fails.
\<close>

theorem getFrame_fails_counterexample:
  "ret (env_ready_fail_at 2 EIO 1) = 0
   \<and> \<not> dequeue_fatal (env_ready_fail_at 2 EIO 1)
   \<and> out_index (env_ready_fail_at 2 EIO 1) < nVideoBuffers impl_streaming
   \<and> fst (the (getFrame (env_ready_fail_at 2 EIO) impl_streaming [] os0)) = GENERIC_ERROR
   \<and> calls (snd (snd (the (getFrame (env_ready_fail_at 2 EIO) impl_streaming [] os0)))) =
       [Select 4 4 0, Ioctl 3 VIDIOC_DQBUF, Ioctl 3 (VIDIOC_QBUF 0)]"
  unfolding getFrame_requeue_fails
  by (simp add: env_ready_fail_at_def reply_ok_def dequeue_fatal_def impl_streaming_def
      impl_idle_def)

lemma dequeue_concrete:
  "xioctl (env_ready_fail_at 1 e) (fd impl_streaming) VIDIOC_DQBUF
     (snd (sys (env_ready_fail_at 1 e) (Select (fd impl_streaming + 1) 4 0) os0)) =
   (if e = EINTR then xioctl (env_ready_fail_at 1 e) 3 VIDIOC_DQBUF os_dequeued
    else Some (reply_fail e, os_dequeued))"
  "xioctl (env_ready_fail_at 2 e) (fd impl_streaming) VIDIOC_DQBUF
     (snd (sys (env_ready_fail_at 2 e) (Select (fd impl_streaming + 1) 4 0) os0)) =
   Some (reply_ok, os_dequeued)"
  "xioctl env_bad_index (fd impl_streaming) VIDIOC_DQBUF
     (snd (sys env_bad_index (Select (fd impl_streaming + 1) 4 0) os0)) =
   Some (reply_ok\<lparr>out_index := 7\<rparr>, os_dequeued)"
  by (simp_all add: xioctl.simps sys_def impl_idle_def impl_streaming_def
      os0_def env_ready_fail_at_def env_bad_index_def reply_fail_def reply_ok_def
      reply_ready_def EINTR_def os_dequeued_def Let_def)

lemma requeue_concrete:
  "xioctl (env_ready_fail_at 2 EIO) (fd impl_streaming) (VIDIOC_QBUF (out_index reply_ok))
     (dequeue_logged reply_ok os_dequeued) =
   Some (reply_fail EIO, os_dequeued\<lparr>calls := calls os_dequeued @ [Ioctl 3 (VIDIOC_QBUF 0)]\<rparr>)"
  "xioctl (env_ready_fail_at 1 EAGAIN) (fd impl_streaming)
     (VIDIOC_QBUF (out_index (reply_fail EAGAIN)))
     (dequeue_logged (reply_fail EAGAIN) os_dequeued) =
   Some (reply_ok, os_dequeued\<lparr>calls := calls os_dequeued @ [Ioctl 3 (VIDIOC_QBUF 0)],
                              logged := [''VIDIOC_DQBUF error'']\<rparr>)"
  by (simp_all add: xioctl.simps sys_def impl_idle_def impl_streaming_def LOG_def
      os0_def env_ready_fail_at_def reply_fail_def reply_ok_def dequeue_logged_def
      reply_ready_def EINTR_def EIO_def EAGAIN_def os_dequeued_def Let_def)

theorem getFrame_after_dequeue_witness:
  "dequeue_fatal (reply_fail 19)
   \<and> getFrame (env_ready_fail_at 1 19) impl_streaming [] os0 =
       Some (GENERIC_ERROR, [], dequeue_logged (reply_fail 19) os_dequeued)
   \<and> \<not> dequeue_fatal (reply_ok\<lparr>out_index := 7\<rparr>)
   \<and> nVideoBuffers impl_streaming \<le> out_index (reply_ok\<lparr>out_index := 7\<rparr>)
   \<and> fst (the (getFrame env_bad_index impl_streaming [] os0)) = GENERIC_ERROR
   \<and> \<not> dequeue_fatal (reply_fail EAGAIN)
   \<and> out_index (reply_fail EAGAIN) < nVideoBuffers impl_streaming
   \<and> fst (the (getFrame (env_ready_fail_at 1 EAGAIN) impl_streaming [] os0)) = OK
   \<and> fst (the (getFrame (env_ready_fail_at 2 EIO) impl_streaming [] os0)) \<noteq> OK"
proof -
  have r: "ret (env_ready_fail_at k e (length (calls os0))) \<noteq> - 1"
    "ret (env_ready_fail_at k e (length (calls os0))) \<noteq> 0" for k e
    by (simp_all add: env_ready_fail_at_def os0_def reply_ready_def reply_ok_def)
  have r': "ret (env_bad_index (length (calls os0))) \<noteq> - 1"
    "ret (env_bad_index (length (calls os0))) \<noteq> 0"
    by (simp_all add: env_bad_index_def os0_def reply_ready_def reply_ok_def)
  have f: "dequeue_fatal (reply_fail 19)" "\<not> dequeue_fatal (reply_ok\<lparr>out_index := 7\<rparr>)"
    "\<not> dequeue_fatal (reply_fail EAGAIN)" "\<not> dequeue_fatal reply_ok"
    by (simp_all add: dequeue_fatal_def reply_fail_def reply_ok_def EAGAIN_def EIO_def)
  have i: "nVideoBuffers impl_streaming \<le> out_index (reply_ok\<lparr>out_index := 7\<rparr>)"
    "out_index (reply_fail EAGAIN) < nVideoBuffers impl_streaming"
    "out_index reply_ok < nVideoBuffers impl_streaming"
    by (simp_all add: impl_streaming_def impl_idle_def reply_fail_def reply_ok_def)
  have d19: "xioctl (env_ready_fail_at 1 19) (fd impl_streaming) VIDIOC_DQBUF
     (snd (sys (env_ready_fail_at 1 19) (Select (fd impl_streaming + 1) 4 0) os0)) =
     Some (reply_fail 19, os_dequeued)"
    using dequeue_concrete(1) [of 19] by (simp add: EINTR_def)
  have dag: "xioctl (env_ready_fail_at 1 EAGAIN) (fd impl_streaming) VIDIOC_DQBUF
     (snd (sys (env_ready_fail_at 1 EAGAIN) (Select (fd impl_streaming + 1) 4 0) os0)) =
     Some (reply_fail EAGAIN, os_dequeued)"
    using dequeue_concrete(1) [of EAGAIN] by (simp add: EINTR_def EAGAIN_def)
  have 1: "getFrame (env_ready_fail_at 1 19) impl_streaming [] os0 =
       Some (GENERIC_ERROR, [], dequeue_logged (reply_fail 19) os_dequeued)"
    using getFrame_after_dequeue [of "env_ready_fail_at 1 19" os0 impl_streaming
        "reply_fail 19" os_dequeued "[]"] r d19 f(1)
    by blast
  have "getFrame env_bad_index impl_streaming [] os0 =
          Some (GENERIC_ERROR, [],
                LOG ''Not enough buffers avaialable''
                  (dequeue_logged (reply_ok\<lparr>out_index := 7\<rparr>) os_dequeued))"
    using getFrame_after_dequeue [of env_bad_index os0 impl_streaming
        "reply_ok\<lparr>out_index := 7\<rparr>" os_dequeued "[]"] r' dequeue_concrete(3) f(2) i(1)
    by blast
  then have 2: "fst (the (getFrame env_bad_index impl_streaming [] os0)) = GENERIC_ERROR"
    by simp
  have "getFrame (env_ready_fail_at 1 EAGAIN) impl_streaming [] os0 =
          Some (if ret reply_ok = - 1 then GENERIC_ERROR else OK,
                unpack (frame_width (frameDetails impl_streaming))
                  (frame_height (frameDetails impl_streaming))
                  (\<lambda>i. mem (dequeue_logged (reply_fail EAGAIN) os_dequeued)
                         (buf_start (videoBuffers impl_streaming
                            (unat (out_index (reply_fail EAGAIN)))) + i)) [],
                if ret reply_ok = - 1
                then LOG ''VIDIOC_QBUF error''
                  (os_dequeued\<lparr>calls := calls os_dequeued @ [Ioctl 3 (VIDIOC_QBUF 0)],
                              logged := [''VIDIOC_DQBUF error'']\<rparr>)
                else os_dequeued\<lparr>calls := calls os_dequeued @ [Ioctl 3 (VIDIOC_QBUF 0)],
                              logged := [''VIDIOC_DQBUF error'']\<rparr>)"
    using getFrame_after_dequeue [of "env_ready_fail_at 1 EAGAIN" os0 impl_streaming
        "reply_fail EAGAIN" os_dequeued "[]" reply_ok
        "os_dequeued\<lparr>calls := calls os_dequeued @ [Ioctl 3 (VIDIOC_QBUF 0)],
                              logged := [''VIDIOC_DQBUF error'']\<rparr>"]
      r dag f(3) i(2) requeue_concrete(2)
    by blast
  then have 3: "fst (the (getFrame (env_ready_fail_at 1 EAGAIN) impl_streaming [] os0)) = OK"
    by (simp add: reply_ok_def)
  obtain st b' w' where
    g: "getFrame (env_ready_fail_at 2 EIO) impl_streaming [] os0 = Some (st, b', w')"
    using getFrame_requeue_fails by blast
  have "ret (reply_fail EIO) = - 1" by (simp add: reply_fail_def)
  then have "\<exists>q w4. xioctl (env_ready_fail_at 2 EIO) (fd impl_streaming)
              (VIDIOC_QBUF (out_index reply_ok)) (dequeue_logged reply_ok os_dequeued) =
              Some (q, w4) \<and> ret q = - 1"
    using requeue_concrete(1) by blast
  then have "st \<noteq> OK"
    using getFrame_after_dequeue [of "env_ready_fail_at 2 EIO" os0 impl_streaming
        reply_ok os_dequeued "[]" _ _ st b' w'] r dequeue_concrete(2) g
    by blast
  then have 4: "fst (the (getFrame (env_ready_fail_at 2 EIO) impl_streaming [] os0)) \<noteq> OK"
    using g by simp
  show ?thesis using f i 1 2 3 4 by blast
qed

subsection \<open>Releasing the buffer pool\<close>














subsection \<open>Writing the registers of the front end\<close>

lemma xioctl_succeeds:
  "ret (env (length (calls w))) \<noteq> - 1 \<Longrightarrow>
   xioctl env fh request w =
     Some (env (length (calls w)),
           w\<lparr>calls := calls w @ [Ioctl fh request], mem := out_mem (env (length (calls w)))\<rparr>)"
  by (subst xioctl.simps) (simp add: sys_def Let_def)

lemma unat_sub_packet: "unat (len - CTRL_PACKET_SIZE) mod 4096 = unat len mod 4096"
proof (cases "unat (4096 :: 64 word) \<le> unat len")
  case True
  then have "unat (len - 4096) = unat len - 4096"
    by (simp add: unat_sub_if_size)
  moreover have "4096 \<le> unat len" using True by simp
  ultimately show ?thesis
    by (simp add: CTRL_PACKET_SIZE_def le_mod_geq)
next
  case False
  then have "unat (len - 4096) = unat len + 2 ^ 64 - 4096"
    by (simp add: unat_sub_if_size word_size)
  moreover define K :: nat where "K = 2 ^ 52 - 1"
  moreover have "(2 :: nat) ^ 64 = 4096 + 4096 * K" unfolding K_def by simp
  ultimately have "unat (len - 4096) = unat len + 4096 * K" by simp
  then show ?thesis by (simp add: CTRL_PACKET_SIZE_def)
qed

lemma writeAfeRegisters_loop_never:
  assumes ok: "\<forall>n. ret (env n) \<noteq> - 1" and odd: "unat len mod 4096 \<noteq> 0"
  shows "writeAfeRegisters_loop env impl address data len sampleCnt w = None"
proof (rule ccontr)
  assume "writeAfeRegisters_loop env impl address data len sampleCnt w \<noteq> None"
  then obtain y where y: "writeAfeRegisters_loop env impl address data len sampleCnt w = Some y"
    by blast
  let ?P = "\<lambda>(env :: env) (impl :: ImplData) (address :: nat \<Rightarrow> 16 word)
              (data :: nat \<Rightarrow> 16 word) (len :: 64 word) (sampleCnt :: 16 word) (w :: os)
              (y :: Status \<times> os).
              (\<forall>n. ret (env n) \<noteq> - 1) \<longrightarrow> unat len mod 4096 = 0"
  have step: "?P env impl address data len sampleCnt w y"
    if IH: "\<And>env impl address data len sampleCnt w y.
              loop env impl address data len sampleCnt w = Some y \<Longrightarrow>
              ?P env impl address data len sampleCnt w y"
      and body: "(if len \<noteq> 0 then
        (case writeAfeRegisters_fill address data len 0 sampleCnt (replicate 2048 0) of
           (sampleCnt1, buf) \<Rightarrow>
             (case xioctl env (sfd impl) (VIDIOC_S_EXT_CTRLS buf) w of
                None \<Rightarrow> None
              | Some (r, w1) \<Rightarrow>
                  if ret r = - 1 then Some (GENERIC_ERROR, LOG ''Programming AFE error'' w1)
                  else loop env impl address data (len - CTRL_PACKET_SIZE) sampleCnt1 w1))
      else Some (OK, w)) = Some y"
    for loop env impl address data len sampleCnt w y
  proof (intro impI)
    assume ok: "\<forall>n. ret (env n) \<noteq> - 1"
    show "unat len mod 4096 = 0"
    proof (cases "len = 0")
      case True
      then show ?thesis by simp
    next
      case False
      obtain s1 buf where f:
        "writeAfeRegisters_fill address data len 0 sampleCnt (replicate 2048 0) = (s1, buf)"
        by (cases "writeAfeRegisters_fill address data len 0 sampleCnt (replicate 2048 0)")
      let ?r = "env (length (calls w))"
      let ?w1 = "w\<lparr>calls := calls w @ [Ioctl (sfd impl) (VIDIOC_S_EXT_CTRLS buf)],
                   mem := out_mem ?r\<rparr>"
      have x: "xioctl env (sfd impl) (VIDIOC_S_EXT_CTRLS buf) w = Some (?r, ?w1)"
        using ok by (intro xioctl_succeeds) simp
      have "loop env impl address data (len - CTRL_PACKET_SIZE) s1 ?w1 = Some y"
        using body False ok by (simp add: f x)
      from IH [OF this] ok have "unat (len - CTRL_PACKET_SIZE) mod 4096 = 0" by blast
      then show ?thesis by (simp only: unat_sub_packet)
    qed
  qed
  have "?P env impl address data len sampleCnt w y"
    by (rule writeAfeRegisters_loop.raw_induct [where P = ?P, OF step y])
  with ok odd show False by simp
qed

lemma writeAfeRegisters_loop_returns:
  assumes ok: "\<forall>n. ret (env n) \<noteq> - 1"
  shows "unat len mod 4096 = 0 \<Longrightarrow>
         \<exists>w'. writeAfeRegisters_loop env impl address data len sampleCnt w = Some (OK, w')"
proof (induction "unat len div 4096" arbitrary: len sampleCnt w)
  case 0
  then have "unat len = 0" by (simp add: div_eq_0_iff mod_eq_0_iff_dvd dvd_div_eq_0_iff)
  then have "len = 0" by (simp add: unat_eq_0)
  then show ?case by (subst writeAfeRegisters_loop.simps) simp
next
  case (Suc m)
  from Suc(2) have ge: "4096 \<le> unat len" by simp
  then have nz: "len \<noteq> 0" by auto
  have "unat (4096 :: 64 word) \<le> unat len" using ge by simp
  then have u: "unat (len - CTRL_PACKET_SIZE) = unat len - 4096"
    by (simp add: unat_sub_if_size CTRL_PACKET_SIZE_def)
  have d: "m = unat (len - CTRL_PACKET_SIZE) div 4096"
    unfolding u using Suc(2) le_div_geq [of 4096 "unat len"] ge by simp
  have md: "unat (len - CTRL_PACKET_SIZE) mod 4096 = 0"
    using Suc(3) by (simp only: unat_sub_packet)
  obtain s1 buf where f:
    "writeAfeRegisters_fill address data len 0 sampleCnt (replicate 2048 0) = (s1, buf)"
    by (cases "writeAfeRegisters_fill address data len 0 sampleCnt (replicate 2048 0)")
  let ?r = "env (length (calls w))"
  let ?w1 = "w\<lparr>calls := calls w @ [Ioctl (sfd impl) (VIDIOC_S_EXT_CTRLS buf)],
               mem := out_mem ?r\<rparr>"
  have x: "xioctl env (sfd impl) (VIDIOC_S_EXT_CTRLS buf) w = Some (?r, ?w1)"
    using ok by (intro xioctl_succeeds) simp
  have "writeAfeRegisters_loop env impl address data len sampleCnt w =
        writeAfeRegisters_loop env impl address data (len - CTRL_PACKET_SIZE) s1 ?w1"
    using ok nz by (subst writeAfeRegisters_loop.simps) (simp add: f x)
  then show ?case using Suc(1) [OF d md, of s1 ?w1] by simp
qed

text \<open>
  Claim C10 does not hold of the code. \<open>length -= CTRL_PACKET_SIZE\<close> wraps around when
  fewer than 4096 bytes remain, and 4096 divides \<open>2^64\<close>, so the remaining length stays
  nonzero for ever unless the byte count \<open>4 * length\<close> is a multiple of 4096. With a
  driver that accepts every packet, \<open>writeAfeRegisters\<close> returns (with \<open>OK\<close>) exactly
  when the byte count is such a multiple; otherwise it never returns.
\<close>

theorem writeAfeRegisters_returns_iff:
  "(\<forall>n. ret (env n) \<noteq> - 1) \<longrightarrow>
     (writeAfeRegisters env impl address data len w \<noteq> None) =
       (unat (len * (2 * 2)) mod 4096 = 0)
     \<and> (unat (len * (2 * 2)) mod 4096 = 0 \<longrightarrow>
          (\<exists>w'. writeAfeRegisters env impl address data len w = Some (OK, w')))"
proof
  assume ok: "\<forall>n. ret (env n) \<noteq> - 1"
  have a: "writeAfeRegisters env impl address data len w = None"
    if "unat (len * (2 * 2)) mod 4096 \<noteq> 0"
    unfolding writeAfeRegisters_def by (rule writeAfeRegisters_loop_never [OF ok that])
  have b: "\<exists>w'. writeAfeRegisters env impl address data len w = Some (OK, w')"
    if "unat (len * (2 * 2)) mod 4096 = 0"
    unfolding writeAfeRegisters_def by (rule writeAfeRegisters_loop_returns [OF ok that])
  show "(writeAfeRegisters env impl address data len w \<noteq> None) =
       (unat (len * (2 * 2)) mod 4096 = 0)
     \<and> (unat (len * (2 * 2)) mod 4096 = 0 \<longrightarrow>
          (\<exists>w'. writeAfeRegisters env impl address data len w = Some (OK, w')))"
    using a b by fastforce
qed

theorem writeAfeRegisters_returns_iff_witness:
  "(\<forall>n. ret (env_ok n) \<noteq> - 1)
   \<and> writeAfeRegisters env_ok impl_idle regs0 regs0 1 os0 = None
   \<and> (\<exists>w'. writeAfeRegisters env_ok impl_idle regs0 regs0 1024 os0 = Some (OK, w'))"
proof -
  have ok: "\<forall>n. ret (env_ok n) \<noteq> - 1" by (simp add: env_ok_def reply_ok_def)
  have 1: "unat ((1 :: 64 word) * (2 * 2)) mod 4096 \<noteq> 0"
    and 2: "unat ((1024 :: 64 word) * (2 * 2)) mod 4096 = 0"
    by simp_all
  have "writeAfeRegisters env_ok impl_idle regs0 regs0 1 os0 = None"
    using writeAfeRegisters_returns_iff [of env_ok impl_idle regs0 regs0 1 os0] ok 1 by blast
  moreover have "\<exists>w'. writeAfeRegisters env_ok impl_idle regs0 regs0 1024 os0 = Some (OK, w')"
    using writeAfeRegisters_returns_iff [of env_ok impl_idle regs0 regs0 1024 os0] ok 2 by blast
  ultimately show ?thesis using ok by blast
qed

end
